theory Spec2Isabelle
  imports Main "HOL-Library.Word"
begin

section \<open>Values\<close>

text \<open>
  The models of \<^verbatim>\<open>models.py\<close> are pydantic classes: the module only declares fields
  (name, annotated type, \<^verbatim>\<open>Field(...)\<close> or a default) and the validation library reads
  the declarations. The embedding keeps that split. The declarations of the module are
  transcribed as schema terms (type \<open>ty\<close> below), one definition per class, and
  \<open>validate\<close> is the interpreter of a declaration on an input.

  \<open>raw\<close> is an input as the library receives it (the decoded body of a request or the
  keyword arguments of a constructor); \<open>val\<close> is a validated value. A Python dict is
  an association list in insertion order; its keys are distinct in every dict Python can
  build, and a lookup reads the first binding. A UUID is its 128 bits, a float its 64 bits
  (no arithmetic is done on either), a datetime a point on the time line.
\<close>

type_synonym uuid = "128 word"
type_synonym pyfloat = "64 word"

datatype datetime = Datetime int

datatype raw =
    RNone
  | RBool bool
  | RInt int
  | RFloat pyfloat
  | RStr string
  | RUuid uuid
  | RDatetime datetime
  | RList "raw list"
  | RDict "(string \<times> raw) list"

datatype val =
    VBool bool
  | VInt int
  | VFloat pyfloat
  | VStr string
  | VUuid uuid
  | VDatetime datetime
  | VList "val list"
  | VDict "(string \<times> val) list"
  | VModel string "(string \<times> val) list"

section \<open>Declarations\<close>

text \<open>
  \<open>Required\<close> is \<^verbatim>\<open>Field(...)\<close>, \<open>Default v\<close> is \<^verbatim>\<open>Field(default=v)\<close> and
  \<open>DefaultFactoryNow\<close> is \<^verbatim>\<open>Field(default_factory=datetime.now)\<close>.
  \<open>TModel name config fields\<close> is a class deriving from \<^verbatim>\<open>BaseModel\<close> with the
  entries of its \<^verbatim>\<open>class Config\<close> and its fields in declaration order; \<open>TDict t\<close> is
  \<^verbatim>\<open>Dict[str, t]\<close>.
\<close>

datatype dflt = Required | Default val | DefaultFactoryNow

datatype ty =
    TStr
  | TInt
  | TFloat
  | TBool
  | TUuid
  | TDatetime
  | TList ty
  | TDict ty
  | TModel string "(string \<times> bool) list" "(string \<times> ty \<times> dflt) list"
  | TUnion "ty list"

definition ClickPayload :: ty where
  "ClickPayload = TModel ''ClickPayload'' []
     [(''element_id'', TStr, Required),
      (''element_classes'', TList TStr, Default (VList [])),
      (''position'', TDict TInt, Required)]"

definition ScrollPayload :: ty where
  "ScrollPayload = TModel ''ScrollPayload'' []
     [(''scroll_depth_px'', TInt, Required),
      (''scroll_depth_percent'', TFloat, Required),
      (''viewport_height'', TInt, Required),
      (''document_height'', TInt, Required)]"

definition MouseMovementPayload :: ty where
  "MouseMovementPayload = TModel ''MouseMovementPayload'' []
     [(''positions'', TList (TDict TInt), Required),
      (''button'', TStr, Required),
      (''duration_ms'', TInt, Required)]"

definition KeypressPayload :: ty where
  "KeypressPayload = TModel ''KeypressPayload'' []
     [(''key'', TStr, Required),
      (''code'', TStr, Required),
      (''alt_key'', TBool, Default (VBool False)),
      (''ctrl_key'', TBool, Default (VBool False)),
      (''shift_key'', TBool, Default (VBool False)),
      (''meta_key'', TBool, Default (VBool False)),
      (''target_element_id'', TStr, Required)]"

definition WindowResizePayload :: ty where
  "WindowResizePayload = TModel ''WindowResizePayload'' []
     [(''old_width'', TInt, Required),
      (''old_height'', TInt, Required),
      (''new_width'', TInt, Required),
      (''new_height'', TInt, Required)]"

text \<open>
  \<^verbatim>\<open>BaseEvent\<close>: the envelope fields and the \<^verbatim>\<open>Config\<close> that the five event classes
  inherit. Each event class adds \<^verbatim>\<open>event_type\<close>, a \<^verbatim>\<open>str\<close> with a default, and
  \<^verbatim>\<open>payload\<close>.
\<close>

definition BaseEvent_config :: "(string \<times> bool) list" where
  "BaseEvent_config = [(''orm_mode'', True), (''from_attributes'', True)]"

definition BaseEvent_fields :: "(string \<times> ty \<times> dflt) list" where
  "BaseEvent_fields =
     [(''session_id'', TUuid, Required),
      (''website_id'', TUuid, Required),
      (''url'', TStr, Required),
      (''timestamp'', TDatetime, DefaultFactoryNow)]"

definition event_class :: "string \<Rightarrow> string \<Rightarrow> ty \<Rightarrow> ty" where
  "event_class name tag payload_ty =
     TModel name BaseEvent_config
       (BaseEvent_fields @
        [(''event_type'', TStr, Default (VStr tag)), (''payload'', payload_ty, Required)])"

definition ClickEvent :: ty where
  "ClickEvent = event_class ''ClickEvent'' ''click'' ClickPayload"

definition ScrollEvent :: ty where
  "ScrollEvent = event_class ''ScrollEvent'' ''scroll'' ScrollPayload"

definition MouseMovementEvent :: ty where
  "MouseMovementEvent = event_class ''MouseMovementEvent'' ''mouse_move'' MouseMovementPayload"

definition KeypressEvent :: ty where
  "KeypressEvent = event_class ''KeypressEvent'' ''keypress'' KeypressPayload"

definition WindowResizeEvent :: ty where
  "WindowResizeEvent = event_class ''WindowResizeEvent'' ''window_resize'' WindowResizePayload"

definition EventModel_members :: "ty list" where
  "EventModel_members =
     [ClickEvent, ScrollEvent, MouseMovementEvent, KeypressEvent, WindowResizeEvent]"

definition EventModel :: ty where
  "EventModel = TUnion EventModel_members"

definition BatchEventPayload :: ty where
  "BatchEventPayload = TModel ''BatchEventPayload'' [(''orm_mode'', True), (''from_attributes'', True)]
     [(''events'', TList EventModel, Required)]"

definition BatchEventRequest :: ty where
  "BatchEventRequest = TModel ''BatchEventRequest'' [(''orm_mode'', True), (''from_attributes'', True)]
     [(''payload'', BatchEventPayload, Required)]"

definition BatchEventResponse :: ty where
  "BatchEventResponse = TModel ''BatchEventResponse'' [(''orm_mode'', True), (''from_attributes'', True)]
     [(''success'', TBool, Required),
      (''processed_event_count'', TInt, Required),
      (''message'', TStr, Required)]"

section \<open>Validation\<close>

text \<open>
  What the module does not fix is a parameter of the interpreter: the conversions of the
  library's lax mode on an input that is not already of the declared type (a numeric
  string for an \<^verbatim>\<open>int\<close>, a string for a UUID or a datetime, ...), the member a
  \<^verbatim>\<open>Union\<close> returns when several members validate the same input (the library's smart
  mode; the module sets no discriminator and no union mode), and the clock read by
  \<^verbatim>\<open>datetime.now\<close>. A \<^verbatim>\<open>str\<close> field takes strings only.
\<close>

record params =
  lax_int :: "raw \<Rightarrow> int option"
  lax_float :: "raw \<Rightarrow> pyfloat option"
  lax_bool :: "raw \<Rightarrow> bool option"
  lax_uuid :: "raw \<Rightarrow> uuid option"
  lax_datetime :: "raw \<Rightarrow> datetime option"
  smart_choice :: "raw \<Rightarrow> val list \<Rightarrow> nat"
  clock :: datetime

datatype locitem = Key string | Idx nat

datatype ekind = missing | bad_value

datatype verr = VErr "locitem list" ekind

fun loc :: "verr \<Rightarrow> locitem list" where
  "loc (VErr l k) = l"

fun kind :: "verr \<Rightarrow> ekind" where
  "kind (VErr l k) = k"

fun under :: "locitem \<Rightarrow> verr \<Rightarrow> verr" where
  "under i (VErr l k) = VErr (i # l) k"

text \<open>A list of results is a value when every result is; otherwise all errors are kept.\<close>

fun gather :: "(verr list + 'a) list \<Rightarrow> verr list + 'a list" where
  "gather [] = Inr []"
| "gather (r # rs) =
     (case r of
        Inl e \<Rightarrow> (case gather rs of Inl es \<Rightarrow> Inl (e @ es) | Inr vs \<Rightarrow> Inl e)
      | Inr v \<Rightarrow> (case gather rs of Inl es \<Rightarrow> Inl es | Inr vs \<Rightarrow> Inr (v # vs)))"

fun successes :: "('e + 'a) list \<Rightarrow> 'a list" where
  "successes [] = []"
| "successes (Inl e # rs) = successes rs"
| "successes (Inr v # rs) = v # successes rs"

fun failures :: "('e list + 'a) list \<Rightarrow> 'e list" where
  "failures [] = []"
| "failures (Inl e # rs) = e @ failures rs"
| "failures (Inr v # rs) = failures rs"

fun label :: "ty \<Rightarrow> string" where
  "label (TModel name cfg fs) = name"
| "label TStr = ''str''"
| "label TInt = ''int''"
| "label TFloat = ''float''"
| "label TBool = ''bool''"
| "label TUuid = ''uuid''"
| "label TDatetime = ''datetime''"
| "label (TList t) = ''list''"
| "label (TDict t) = ''dict''"
| "label (TUnion ts) = ''union''"

definition at :: "locitem \<Rightarrow> verr list + 'a \<Rightarrow> verr list + 'a" where
  "at i r = (case r of Inl es \<Rightarrow> Inl (map (under i) es) | Inr v \<Rightarrow> Inr v)"

definition wrap :: "('a \<Rightarrow> 'b) \<Rightarrow> verr list + 'a \<Rightarrow> verr list + 'b" where
  "wrap f r = (case r of Inl es \<Rightarrow> Inl es | Inr v \<Rightarrow> Inr (f v))"

definition scalar :: "('a \<Rightarrow> val) \<Rightarrow> 'a option \<Rightarrow> verr list + val" where
  "scalar f x = (case x of None \<Rightarrow> Inl [VErr [] bad_value] | Some a \<Rightarrow> Inr (f a))"

text \<open>
  \<open>validate P t r\<close> is the validation of the input \<open>r\<close> against the declaration
  \<open>t\<close>, as the library does it in its default configuration, which no class of the
  module changes:
  \<^item> a scalar of the declared type is taken as it is, any other input goes through the
    lax conversion;
  \<^item> a list or a mapping is validated element by element, and the errors of all
    elements are reported under their index or key;
  \<^item> a model takes a dict; it visits every declared field in declaration order, reports
    a \<open>missing\<close> error for an absent required field, takes the default of an absent
    optional field without validating it, ignores the keys that are not declared, and
    reports the errors of all fields together;
  \<^item> a union validates the input against every member; it returns one of the results
    that validated, the one the choice rule selects, and the errors of all members when
    none did.
\<close>

function validate :: "params \<Rightarrow> ty \<Rightarrow> raw \<Rightarrow> verr list + val" where
  "validate P TStr r = scalar VStr (case r of RStr s \<Rightarrow> Some s | _ \<Rightarrow> None)"
| "validate P TInt r = scalar VInt (case r of RInt i \<Rightarrow> Some i | _ \<Rightarrow> lax_int P r)"
| "validate P TFloat r = scalar VFloat (case r of RFloat f \<Rightarrow> Some f | _ \<Rightarrow> lax_float P r)"
| "validate P TBool r = scalar VBool (case r of RBool b \<Rightarrow> Some b | _ \<Rightarrow> lax_bool P r)"
| "validate P TUuid r = scalar VUuid (case r of RUuid u \<Rightarrow> Some u | _ \<Rightarrow> lax_uuid P r)"
| "validate P TDatetime r =
     scalar VDatetime (case r of RDatetime d \<Rightarrow> Some d | _ \<Rightarrow> lax_datetime P r)"
| "validate P (TList t) r =
     (case r of
        RList xs \<Rightarrow>
          wrap VList (gather (map (\<lambda>(i, x). at (Idx i) (validate P t x)) (enumerate 0 xs)))
      | _ \<Rightarrow> Inl [VErr [] bad_value])"
| "validate P (TDict t) r =
     (case r of
        RDict kvs \<Rightarrow>
          wrap VDict (gather (map (\<lambda>(k, x). at (Key k) (wrap (Pair k) (validate P t x))) kvs))
      | _ \<Rightarrow> Inl [VErr [] bad_value])"
| "validate P (TModel name cfg fs) r =
     (case r of
        RDict d \<Rightarrow>
          wrap (VModel name)
            (gather (map (\<lambda>(k, t, df).
               (case map_of d k of
                  Some x \<Rightarrow> at (Key k) (wrap (Pair k) (validate P t x))
                | None \<Rightarrow>
                    (case df of
                       Required \<Rightarrow> Inl [VErr [Key k] missing]
                     | Default v \<Rightarrow> Inr (k, v)
                     | DefaultFactoryNow \<Rightarrow> Inr (k, VDatetime (clock P))))) fs))
      | _ \<Rightarrow> Inl [VErr [] bad_value])"
| "validate P (TUnion ts) r =
     (let rs = map (\<lambda>t. at (Key (label t)) (validate P t r)) ts;
          oks = successes rs
      in if oks = [] then Inl (failures rs)
         else Inr (oks ! (smart_choice P r oks mod length oks)))"
  by pat_completeness auto
termination
proof (relation "measure (\<lambda>(P, t, r). size t)", goal_cases)
  case (4 P name cfg fs r d f k b t df x)
  then have "size t \<le> size_list (size_prod (\<lambda>x. 0) (size_prod size (\<lambda>x. 0))) fs"
    by (intro size_list_estimation'[where x = "(k, t, df)"]) auto
  then show ?case by simp
next
  case (5 P ts r t)
  then have "size t \<le> size_list size ts"
    by (intro size_list_estimation'[where x = t]) auto
  then show ?case by simp
qed auto


section \<open>Instances: attributes, assignment, dumping\<close>

text \<open>
  A raised exception is its message (\<^verbatim>\<open>str(e)\<close>), the only part of it the code reads.
  \<open>getattr\<close> is attribute access on an instance. \<open>setattr\<close> is the assignment
  \<^verbatim>\<open>obj.k = v\<close> on an instance of class \<open>t\<close>: the library refuses it when the class
  configuration sets \<^verbatim>\<open>frozen\<close>, refuses a name that is not a field, and stores the
  value otherwise (no class of the module sets \<^verbatim>\<open>validate_assignment\<close>).
  \<open>dump\<close> is \<^verbatim>\<open>model_dump()\<close>.
\<close>

datatype exn = Exception string

fun str :: "exn \<Rightarrow> string" where
  "str (Exception m) = m"

fun getattr :: "val \<Rightarrow> string \<Rightarrow> exn + val" where
  "getattr (VModel name kvs) k =
     (case map_of kvs k of
        Some v \<Rightarrow> Inr v
      | None \<Rightarrow> Inl (Exception (name @ '' object has no attribute '' @ k)))"
| "getattr v k = Inl (Exception (''object has no attribute '' @ k))"

fun assign :: "'k \<Rightarrow> 'v \<Rightarrow> ('k \<times> 'v) list \<Rightarrow> ('k \<times> 'v) list" where
  "assign k v [] = [(k, v)]"
| "assign k v ((k', v') # kvs) = (if k' = k then (k, v) # kvs else (k', v') # assign k v kvs)"

definition is_frozen :: "(string \<times> bool) list \<Rightarrow> bool" where
  "is_frozen cfg = (map_of cfg ''frozen'' = Some True)"

fun setattr :: "ty \<Rightarrow> val \<Rightarrow> string \<Rightarrow> val \<Rightarrow> exn + val" where
  "setattr (TModel name cfg fs) (VModel name' kvs) k v =
     (if is_frozen cfg then Inl (Exception ''Instance is frozen'')
      else if map_of fs k = None then Inl (Exception (name @ '' object has no field '' @ k))
      else Inr (VModel name' (assign k v kvs)))"
| "setattr t obj k v = Inl (Exception (''object has no attribute '' @ k))"

primrec dump :: "val \<Rightarrow> raw" where
  "dump (VBool b) = RBool b"
| "dump (VInt i) = RInt i"
| "dump (VFloat f) = RFloat f"
| "dump (VStr s) = RStr s"
| "dump (VUuid u) = RUuid u"
| "dump (VDatetime d) = RDatetime d"
| "dump (VList vs) = RList (map dump vs)"
| "dump (VDict kvs) = RDict (map (map_prod id dump) kvs)"
| "dump (VModel name kvs) = RDict (map (map_prod id dump) kvs)"

fun model_dump :: "val \<Rightarrow> exn + raw" where
  "model_dump (VModel name kvs) = Inr (dump (VModel name kvs))"
| "model_dump v = Inl (Exception ''object has no attribute model_dump'')"

section \<open>Storage\<close>

text \<open>
  \<^verbatim>\<open>PostgreSQLStorageService.store_event\<close>. The session object and the table class
  \<^verbatim>\<open>SqlAlchemyEventModelTable\<close> are not defined in the module, so they are parameters:
  the table class builds a row from its keyword arguments or raises, and \<^verbatim>\<open>add\<close>,
  \<^verbatim>\<open>commit\<close> and \<^verbatim>\<open>rollback\<close> raise when the database says so, leaving the session
  as it was. A session holds the rows added since the last commit or rollback and the
  rows committed, which are the rows a reader sees. A \<^verbatim>\<open>rollback\<close> that does not raise
  drops the pending rows. The handler catches every \<^verbatim>\<open>Exception\<close>, which is what
  \<open>exn\<close> stands for.
\<close>

record 'row session =
  pending :: "'row list"
  committed :: "'row list"

record 'row database =
  SqlAlchemyEventModelTable :: "(string \<times> raw) list \<Rightarrow> exn + 'row"
  add_raises :: "'row \<Rightarrow> 'row session \<Rightarrow> exn option"
  commit_raises :: "'row session \<Rightarrow> exn option"
  rollback_raises :: "'row session \<Rightarrow> exn option"

definition add :: "'row database \<Rightarrow> 'row \<Rightarrow> 'row session \<Rightarrow> (exn + unit) \<times> 'row session" where
  "add db r s =
     (case add_raises db r s of
        Some e \<Rightarrow> (Inl e, s)
      | None \<Rightarrow> (Inr (), s\<lparr>pending := pending s @ [r]\<rparr>))"

definition commit :: "'row database \<Rightarrow> 'row session \<Rightarrow> (exn + unit) \<times> 'row session" where
  "commit db s =
     (case commit_raises db s of
        Some e \<Rightarrow> (Inl e, s)
      | None \<Rightarrow> (Inr (), s\<lparr>pending := [], committed := committed s @ pending s\<rparr>))"

definition rollback :: "'row database \<Rightarrow> 'row session \<Rightarrow> (exn + unit) \<times> 'row session" where
  "rollback db s =
     (case rollback_raises db s of
        Some e \<Rightarrow> (Inl e, s)
      | None \<Rightarrow> (Inr (), s\<lparr>pending := []\<rparr>))"

text \<open>The constructor call of the \<^verbatim>\<open>try\<close> block, its arguments evaluated in order.\<close>

definition db_event :: "'row database \<Rightarrow> val \<Rightarrow> exn + 'row" where
  "db_event db event =
     (case getattr event ''session_id'' of Inl e \<Rightarrow> Inl e | Inr session_id \<Rightarrow>
      case getattr event ''website_id'' of Inl e \<Rightarrow> Inl e | Inr website_id \<Rightarrow>
      case getattr event ''url'' of Inl e \<Rightarrow> Inl e | Inr url \<Rightarrow>
      case getattr event ''timestamp'' of Inl e \<Rightarrow> Inl e | Inr timestamp \<Rightarrow>
      case getattr event ''event_type'' of Inl e \<Rightarrow> Inl e | Inr event_type \<Rightarrow>
      case getattr event ''payload'' of Inl e \<Rightarrow> Inl e | Inr payload \<Rightarrow>
      case model_dump payload of Inl e \<Rightarrow> Inl e | Inr dumped \<Rightarrow>
        SqlAlchemyEventModelTable db
          [(''session_id'', dump session_id),
           (''website_id'', dump website_id),
           (''url'', dump url),
           (''timestamp'', dump timestamp),
           (''event_type'', dump event_type),
           (''payload'', dumped)])"

text \<open>
  The handler: \<^verbatim>\<open>rollback()\<close>, then \<^verbatim>\<open>raise Exception(f"Failed to store event: {e}")\<close>.
  When the rollback raises, the \<^verbatim>\<open>raise\<close> of the handler is not reached and the error
  of the rollback leaves \<^verbatim>\<open>store_event\<close> as it is.
\<close>

definition except ::
  "'row database \<Rightarrow> exn \<Rightarrow> 'row session \<Rightarrow> (exn + unit) \<times> 'row session" where
  "except db e s =
     (case rollback db s of
        (Inl r, s1) \<Rightarrow> (Inl r, s1)
      | (Inr u, s1) \<Rightarrow> (Inl (Exception (''Failed to store event: '' @ str e)), s1))"

definition store_event :: "'row database \<Rightarrow> val \<Rightarrow> 'row session \<Rightarrow> (exn + unit) \<times> 'row session" where
  "store_event db event s =
     (case db_event db event of
        Inl e \<Rightarrow> except db e s
      | Inr row \<Rightarrow>
          (case add db row s of
             (Inl e, s1) \<Rightarrow> except db e s1
           | (Inr u, s1) \<Rightarrow>
               (case commit db s1 of
                  (Inl e, s2) \<Rightarrow> except db e s2
                | (Inr u', s2) \<Rightarrow> (Inr (), s2))))"

section \<open>Concrete inputs\<close>

text \<open>
  The parameters with no lax conversion at all, the first validating member of a union
  and a clock at 0. The inputs of this section are already of their declared types, and
  at most one member of the union validates each of them, so what they evaluate to does
  not depend on this choice.
\<close>

definition exact_params :: params where
  "exact_params =
     \<lparr>lax_int = (\<lambda>r. None), lax_float = (\<lambda>r. None), lax_bool = (\<lambda>r. None),
      lax_uuid = (\<lambda>r. None), lax_datetime = (\<lambda>r. None),
      smart_choice = (\<lambda>r oks. 0), clock = Datetime 0\<rparr>"

definition click_payload_record :: "(string \<times> raw) list" where
  "click_payload_record =
     [(''element_id'', RStr ''buy''),
      (''element_classes'', RList [RStr ''btn'']),
      (''position'', RDict [(''x'', RInt 10), (''y'', RInt 20)])]"

definition envelope_record :: "(string \<times> raw) list" where
  "envelope_record =
     [(''session_id'', RUuid 1), (''website_id'', RUuid 2), (''url'', RStr ''/shop''),
      (''timestamp'', RDatetime (Datetime 5))]"

definition click_record :: "string \<Rightarrow> (string \<times> raw) list" where
  "click_record tag =
     envelope_record @ [(''event_type'', RStr tag), (''payload'', RDict click_payload_record)]"

definition untagged_record :: "(string \<times> raw) list \<Rightarrow> (string \<times> raw) list" where
  "untagged_record payload = envelope_record @ [(''payload'', RDict payload)]"

definition click_event :: "string \<Rightarrow> val" where
  "click_event tag =
     VModel ''ClickEvent''
       [(''session_id'', VUuid 1), (''website_id'', VUuid 2), (''url'', VStr ''/shop''),
        (''timestamp'', VDatetime (Datetime 5)), (''event_type'', VStr tag),
        (''payload'', VModel ''ClickPayload''
           [(''element_id'', VStr ''buy''),
            (''element_classes'', VList [VStr ''btn'']),
            (''position'', VDict [(''x'', VInt 10), (''y'', VInt 20)])])]"

text \<open>
  Further inputs: a mouse movement record and its event, a click payload with a third
  position key, a click payload with no \<^verbatim>\<open>element_id\<close>, a number among its classes
  and a string as a coordinate, and a database whose commit fails.
\<close>

definition mouse_payload_record :: "(string \<times> raw) list" where
  "mouse_payload_record =
     [(''positions'', RList [RDict [(''x'', RInt 1), (''y'', RInt 2)]]),
      (''button'', RStr ''left''),
      (''duration_ms'', RInt 40)]"

definition mouse_event :: val where
  "mouse_event =
     VModel ''MouseMovementEvent''
       [(''session_id'', VUuid 1), (''website_id'', VUuid 2), (''url'', VStr ''/shop''),
        (''timestamp'', VDatetime (Datetime 5)), (''event_type'', VStr ''mouse_move''),
        (''payload'', VModel ''MouseMovementPayload''
           [(''positions'', VList [VDict [(''x'', VInt 1), (''y'', VInt 2)]]),
            (''button'', VStr ''left''),
            (''duration_ms'', VInt 40)])]"

definition click_payload_xyz :: "(string \<times> raw) list" where
  "click_payload_xyz =
     [(''element_id'', RStr ''buy''),
      (''position'', RDict [(''x'', RInt 10), (''y'', RInt 20), (''z'', RInt 5)])]"

definition click_payload_xyz_value :: val where
  "click_payload_xyz_value =
     VModel ''ClickPayload''
       [(''element_id'', VStr ''buy''), (''element_classes'', VList []),
        (''position'', VDict [(''x'', VInt 10), (''y'', VInt 20), (''z'', VInt 5)])]"

definition bad_click_payload :: "(string \<times> raw) list" where
  "bad_click_payload =
     [(''element_classes'', RList [RStr ''btn'', RInt 3]),
      (''position'', RDict [(''x'', RStr ''left''), (''y'', RInt 20)])]"




text \<open>
  A click payload with the required fields only, and the event its untagged record
  resolves to.
\<close>

definition min_click_payload :: "(string \<times> raw) list" where
  "min_click_payload =
     [(''element_id'', RStr ''buy''),
      (''position'', RDict [(''x'', RInt 10), (''y'', RInt 20)])]"

definition min_click_event :: val where
  "min_click_event =
     VModel ''ClickEvent''
       [(''session_id'', VUuid 1), (''website_id'', VUuid 2), (''url'', VStr ''/shop''),
        (''timestamp'', VDatetime (Datetime 5)), (''event_type'', VStr ''click''),
        (''payload'', VModel ''ClickPayload''
           [(''element_id'', VStr ''buy''),
            (''element_classes'', VList []),
            (''position'', VDict [(''x'', VInt 10), (''y'', VInt 20)])])]"

text \<open>
  A record whose payload has the required fields of a click and of a keypress, and
  parameters whose union returns the second validating member instead of the first.
\<close>

definition click_and_keypress_payload :: "(string \<times> raw) list" where
  "click_and_keypress_payload =
     [(''element_id'', RStr ''buy''),
      (''position'', RDict [(''x'', RInt 10), (''y'', RInt 20)]),
      (''key'', RStr ''a''), (''code'', RStr ''KeyA''), (''target_element_id'', RStr ''buy'')]"

definition second_choice_params :: params where
  "second_choice_params = exact_params\<lparr>smart_choice := (\<lambda>r oks. 1)\<rparr>"

section \<open>Reading the declarations\<close>

text \<open>
  The validation of one declared field of a model on the input dict \<open>d\<close> (the body of
  the loop over the fields in \<open>validate\<close>), and what a class declares: its fields, their
  names, the required ones, the class of its \<^verbatim>\<open>payload\<close> field and the default of its
  \<^verbatim>\<open>event_type\<close> field.
\<close>

definition validate_field ::
  "params \<Rightarrow> (string \<times> raw) list \<Rightarrow> string \<times> ty \<times> dflt \<Rightarrow> verr list + string \<times> val" where
  "validate_field P d f =
     (case f of (k, t, df) \<Rightarrow>
        (case map_of d k of
           Some x \<Rightarrow> at (Key k) (wrap (Pair k) (validate P t x))
         | None \<Rightarrow>
             (case df of
                Required \<Rightarrow> Inl [VErr [Key k] missing]
              | Default v \<Rightarrow> Inr (k, v)
              | DefaultFactoryNow \<Rightarrow> Inr (k, VDatetime (clock P)))))"

fun fields_of :: "ty \<Rightarrow> (string \<times> ty \<times> dflt) list" where
  "fields_of (TModel name cfg fs) = fs"
| "fields_of t = []"

fun field_names :: "ty \<Rightarrow> string list" where
  "field_names (TModel name cfg fs) = map fst fs"
| "field_names t = []"

definition required_keys :: "ty \<Rightarrow> string list" where
  "required_keys t =
     (case t of
        TModel name cfg fs \<Rightarrow> map fst (filter (\<lambda>(k, t, df). df = Required) fs)
      | _ \<Rightarrow> [])"

definition payload_of :: "ty \<Rightarrow> ty" where
  "payload_of t =
     (case t of
        TModel name cfg fs \<Rightarrow> (case map_of fs ''payload'' of Some (ty, df) \<Rightarrow> ty | None \<Rightarrow> t)
      | _ \<Rightarrow> t)"

definition payload_class :: "ty \<Rightarrow> string" where
  "payload_class t =
     (case t of
        TModel name cfg fs \<Rightarrow> (case map_of fs ''payload'' of Some (ty, df) \<Rightarrow> label ty | _ \<Rightarrow> [])
      | _ \<Rightarrow> [])"

definition default_tag :: "ty \<Rightarrow> string" where
  "default_tag t =
     (case t of
        TModel name cfg fs \<Rightarrow>
          (case map_of fs ''event_type'' of Some (ty, Default (VStr tag)) \<Rightarrow> tag | _ \<Rightarrow> [])
      | _ \<Rightarrow> [])"

definition payload_classes :: "ty list" where
  "payload_classes =
     [ClickPayload, ScrollPayload, MouseMovementPayload, KeypressPayload, WindowResizePayload]"

definition known_tags :: "string list" where
  "known_tags = map default_tag EventModel_members"

section \<open>Notions of the specification\<close>

text \<open>
  The invariant of the data model: the \<^verbatim>\<open>event_type\<close> of an event is the tag of the
  payload class it carries.
\<close>

definition variant_tags :: "(string \<times> string) list" where
  "variant_tags =
     [(''ClickPayload'', ''click''), (''ScrollPayload'', ''scroll''),
      (''MouseMovementPayload'', ''mouse_move''), (''KeypressPayload'', ''keypress''),
      (''WindowResizePayload'', ''window_resize'')]"

definition tag_matches_payload :: "val \<Rightarrow> bool" where
  "tag_matches_payload ev =
     (case (getattr ev ''event_type'', getattr ev ''payload'') of
        (Inr (VStr tag), Inr (VModel pname kvs)) \<Rightarrow>
          map_of variant_tags pname = Some tag
      | _ \<Rightarrow> False)"

text \<open>
  The keys of the position mapping of a click payload.
\<close>

definition position_keys :: "val \<Rightarrow> string list" where
  "position_keys p = (case getattr p ''position'' of Inr (VDict kvs) \<Rightarrow> map fst kvs | _ \<Rightarrow> [])"

text \<open>
  The first exception raised in the \<^verbatim>\<open>try\<close> block of \<^verbatim>\<open>store_event\<close>, if any, with
  the session at that moment: while the row is built from the event, by \<^verbatim>\<open>add\<close>, or by
  \<^verbatim>\<open>commit\<close> on the session that holds the new row.
\<close>

definition failure_cause ::
  "'row database \<Rightarrow> val \<Rightarrow> 'row session \<Rightarrow> (exn \<times> 'row session) option" where
  "failure_cause db event s =
     (case db_event db event of
        Inl e \<Rightarrow> Some (e, s)
      | Inr row \<Rightarrow>
          (case add_raises db row s of
             Some e \<Rightarrow> Some (e, s)
           | None \<Rightarrow>
               (case commit_raises db (s\<lparr>pending := pending s @ [row]\<rparr>) of
                  Some e \<Rightarrow> Some (e, s\<lparr>pending := pending s @ [row]\<rparr>)
                | None \<Rightarrow> None)))"

text \<open>
  A well-typed instance: every declared field present, in declaration order, with a
  value of the declared type. \<open>plain\<close> classes have distinct field names and no union
  inside. One payload class distinguishes itself from another by a required field the
  other does not declare.
\<close>

function has_type :: "ty \<Rightarrow> val \<Rightarrow> bool" where
  "has_type TStr v = (case v of VStr s \<Rightarrow> True | _ \<Rightarrow> False)"
| "has_type TInt v = (case v of VInt i \<Rightarrow> True | _ \<Rightarrow> False)"
| "has_type TFloat v = (case v of VFloat f \<Rightarrow> True | _ \<Rightarrow> False)"
| "has_type TBool v = (case v of VBool b \<Rightarrow> True | _ \<Rightarrow> False)"
| "has_type TUuid v = (case v of VUuid u \<Rightarrow> True | _ \<Rightarrow> False)"
| "has_type TDatetime v = (case v of VDatetime d \<Rightarrow> True | _ \<Rightarrow> False)"
| "has_type (TList t) v = (case v of VList vs \<Rightarrow> list_all (has_type t) vs | _ \<Rightarrow> False)"
| "has_type (TDict t) v =
     (case v of VDict kvs \<Rightarrow> list_all (\<lambda>(k, x). has_type t x) kvs | _ \<Rightarrow> False)"
| "has_type (TModel name cfg fs) v =
     (case v of
        VModel name' kvs \<Rightarrow>
          name' = name \<and> map fst kvs = map fst fs \<and>
          list_all (\<lambda>((k, t, df), (k', x)). has_type t x) (zip fs kvs)
      | _ \<Rightarrow> False)"
| "has_type (TUnion ts) v = list_ex (\<lambda>t. has_type t v) ts"
  by pat_completeness auto
termination
proof (relation "measure (\<lambda>(t, v). size t)", goal_cases)
  case (4 name cfg fs v name' kvs z f kx k tdf t df)
  then have "(k, t, df) \<in> set fs" by (auto dest: set_zip_leftD)
  then have "size t \<le> size_list (size_prod (\<lambda>x. 0) (size_prod size (\<lambda>x. 0))) fs"
    by (intro size_list_estimation'[where x = "(k, t, df)"]) auto
  then show ?case by simp
next
  case (5 ts v t)
  then have "size t \<le> size_list size ts"
    by (intro size_list_estimation'[where x = t]) auto
  then show ?case by simp
qed auto

fun plain :: "ty \<Rightarrow> bool" where
  "plain (TList t) = plain t"
| "plain (TDict t) = plain t"
| "plain (TModel name cfg fs) = (distinct (map fst fs) \<and> list_all (\<lambda>(k, t, df). plain t) fs)"
| "plain (TUnion ts) = False"
| "plain t = True"

definition distinguishes :: "ty \<Rightarrow> ty \<Rightarrow> bool" where
  "distinguishes p' p = list_ex (\<lambda>k. k \<notin> set (field_names p)) (required_keys p')"

text \<open>
  An input conforms to a type when it can be converted to it, every element of a list or
  mapping too. A declared field offends on an input dict when it is required and absent,
  or present with a value that does not conform. \<open>top\<close> is the first step of the
  location of an error: the field it is reported under.
\<close>

function conforms :: "params \<Rightarrow> ty \<Rightarrow> raw \<Rightarrow> bool" where
  "conforms P TStr r = (case r of RStr s \<Rightarrow> True | _ \<Rightarrow> False)"
| "conforms P TInt r = (case r of RInt i \<Rightarrow> True | _ \<Rightarrow> lax_int P r \<noteq> None)"
| "conforms P TFloat r = (case r of RFloat f \<Rightarrow> True | _ \<Rightarrow> lax_float P r \<noteq> None)"
| "conforms P TBool r = (case r of RBool b \<Rightarrow> True | _ \<Rightarrow> lax_bool P r \<noteq> None)"
| "conforms P TUuid r = (case r of RUuid u \<Rightarrow> True | _ \<Rightarrow> lax_uuid P r \<noteq> None)"
| "conforms P TDatetime r = (case r of RDatetime d \<Rightarrow> True | _ \<Rightarrow> lax_datetime P r \<noteq> None)"
| "conforms P (TList t) r = (case r of RList xs \<Rightarrow> list_all (conforms P t) xs | _ \<Rightarrow> False)"
| "conforms P (TDict t) r =
     (case r of RDict kvs \<Rightarrow> list_all (\<lambda>(k, x). conforms P t x) kvs | _ \<Rightarrow> False)"
| "conforms P (TModel name cfg fs) r =
     (case r of
        RDict d \<Rightarrow>
          list_all (\<lambda>(k, t, df).
            (case map_of d k of Some x \<Rightarrow> conforms P t x | None \<Rightarrow> df \<noteq> Required)) fs
      | _ \<Rightarrow> False)"
| "conforms P (TUnion ts) r = list_ex (\<lambda>t. conforms P t r) ts"
  by pat_completeness auto
termination
proof (relation "measure (\<lambda>(P, t, r). size t)", goal_cases)
  case (4 P name cfg fs r d f k tdf t df x)
  then have "size t \<le> size_list (size_prod (\<lambda>x. 0) (size_prod size (\<lambda>x. 0))) fs"
    by (intro size_list_estimation'[where x = "(k, t, df)"]) auto
  then show ?case by simp
next
  case (5 P ts r t)
  then have "size t \<le> size_list size ts"
    by (intro size_list_estimation'[where x = t]) auto
  then show ?case by simp
qed auto

definition field_offends :: "params \<Rightarrow> (string \<times> raw) list \<Rightarrow> string \<times> ty \<times> dflt \<Rightarrow> bool" where
  "field_offends P d f =
     (case f of (k, t, df) \<Rightarrow>
        (case map_of d k of Some x \<Rightarrow> \<not> conforms P t x | None \<Rightarrow> df = Required))"

definition offending :: "params \<Rightarrow> (string \<times> ty \<times> dflt) list \<Rightarrow> (string \<times> raw) list \<Rightarrow> string list" where
  "offending P fs d = map fst (filter (field_offends P d) fs)"

definition missing_fields :: "(string \<times> ty \<times> dflt) list \<Rightarrow> (string \<times> raw) list \<Rightarrow> string list" where
  "missing_fields fs d = map fst (filter (\<lambda>(k, t, df). map_of d k = None \<and> df = Required) fs)"

definition top :: "verr \<Rightarrow> locitem list" where
  "top e = take 1 (loc e)"

section \<open>Properties of validation\<close>

subsection \<open>Collected results and the fields of a model\<close>

lemma failures_Nil: "\<not> list_ex isl rs \<Longrightarrow> failures rs = []"
  by (induction rs rule: failures.induct) auto

lemma gather_eq:
  "gather rs = (if list_ex isl rs then Inl (failures rs) else Inr (successes rs))"
proof (induction rs)
  case Nil
  then show ?case by simp
next
  case (Cons r rs)
  then show ?case by (cases r) (auto simp: failures_Nil)
qed

lemma validate_TModel:
  "validate P (TModel name cfg fs) (RDict d) =
     wrap (VModel name) (gather (map (validate_field P d) fs))"
proof -
  have "(\<lambda>(k, t, df). case map_of d k of
                  Some x \<Rightarrow> at (Key k) (wrap (Pair k) (validate P t x))
                | None \<Rightarrow>
                    (case df of
                       Required \<Rightarrow> Inl [VErr [Key k] missing]
                     | Default v \<Rightarrow> Inr (k, v)
                     | DefaultFactoryNow \<Rightarrow> Inr (k, VDatetime (clock P)))) = validate_field P d"
    by (auto simp: validate_field_def fun_eq_iff)
  then show ?thesis by simp
qed

lemma validate_TModel_Inr:
  "validate P (TModel name cfg fs) (RDict d) = Inr ev \<longleftrightarrow>
     \<not> list_ex isl (map (validate_field P d) fs) \<and>
     ev = VModel name (successes (map (validate_field P d) fs))"
  unfolding validate_TModel by (auto simp: gather_eq wrap_def)

lemma validate_field_key:
  "validate_field P d f = Inr (k, v) \<Longrightarrow> k = fst f"
  by (auto simp: validate_field_def at_def wrap_def split: prod.splits option.splits dflt.splits sum.splits)

lemma successes_keys:
  "\<not> list_ex isl (map (validate_field P d) fs) \<Longrightarrow>
   map fst (successes (map (validate_field P d) fs)) = map fst fs"
proof (induction fs)
  case Nil
  then show ?case by simp
next
  case (Cons f fs)
  then obtain kv where kv: "validate_field P d f = Inr kv"
    by (cases "validate_field P d f") auto
  then have "fst kv = fst f" using validate_field_key[of P d f "fst kv" "snd kv"] by simp
  with Cons kv show ?case by simp
qed

lemma successes_field:
  assumes "\<not> list_ex isl (map (validate_field P d) fs)"
    and "distinct (map fst fs)" and "f \<in> set fs"
  shows "\<exists>v. validate_field P d f = Inr (fst f, v) \<and>
             map_of (successes (map (validate_field P d) fs)) (fst f) = Some v"
  using assms
proof (induction fs)
  case Nil
  then show ?case by simp
next
  case (Cons g fs)
  then obtain kv where kv: "validate_field P d g = Inr kv"
    by (cases "validate_field P d g") auto
  then have key: "fst kv = fst g" using validate_field_key[of P d g "fst kv" "snd kv"] by simp
  show ?case
  proof (cases "f = g")
    case True
    with kv key show ?thesis by (cases kv) auto
  next
    case False
    with Cons.prems have "f \<in> set fs" by simp
    then have "fst f \<in> fst ` set fs" by (rule imageI)
    moreover from Cons.prems have "fst g \<notin> fst ` set fs" by simp
    ultimately have "fst f \<noteq> fst g" by metis
    note \<open>f \<in> set fs\<close> this
    with Cons kv key show ?thesis by (cases kv) auto
  qed
qed

lemma model_field:
  assumes "validate P (TModel name cfg fs) (RDict d) = Inr ev"
    and "distinct (map fst fs)" and "(k, t, df) \<in> set fs"
  shows "\<exists>v. validate_field P d (k, t, df) = Inr (k, v) \<and> getattr ev k = Inr v"
  using assms successes_field[of P d fs "(k, t, df)"]
  unfolding validate_TModel_Inr by auto

lemma validate_field_absent:
  "map_of d k = None \<Longrightarrow> validate_field P d (k, t, Default v) = Inr (k, v)"
  by (simp add: validate_field_def)

lemma validate_field_str:
  "map_of d k = Some x \<Longrightarrow> validate_field P d (k, TStr, df) = Inr (k, v) \<Longrightarrow> \<exists>s. x = RStr s \<and> v = VStr s"
  by (auto simp: validate_field_def at_def wrap_def scalar_def split: raw.splits sum.splits)

lemma event_class_distinct:
  "distinct (map fst (BaseEvent_fields @ [(''event_type'', TStr, Default (VStr tag)), (''payload'', pty, Required)]))"
  by (simp add: BaseEvent_fields_def)



lemma at_Inr [simp]: "at i r = Inr v \<longleftrightarrow> r = Inr v"
  by (auto simp: at_def split: sum.splits)

lemma wrap_Inr [simp]: "wrap f r = Inr w \<longleftrightarrow> (\<exists>v. r = Inr v \<and> w = f v)"
  by (auto simp: wrap_def split: sum.splits)

lemma isl_at [simp]: "isl (at i r) = isl r"
  by (auto simp: at_def split: sum.splits)

lemma isl_wrap [simp]: "isl (wrap f r) = isl r"
  by (auto simp: wrap_def split: sum.splits)

lemma successes_map_Inr: "successes (map Inr vs) = vs"
  by (induction vs) simp_all

lemma no_isl_map_Inr: "\<not> list_ex isl (map Inr vs)"
  by (induction vs) simp_all

lemma no_isl_successes: "\<not> list_ex isl rs \<Longrightarrow> rs = map Inr (successes rs)"
  by (induction rs rule: successes.induct) simp_all

lemma gather_Inr: "gather rs = Inr vs \<longleftrightarrow> rs = map Inr vs"
proof
  assume "gather rs = Inr vs"
  then have "\<not> list_ex isl rs" "vs = successes rs"
    by (simp_all add: gather_eq split: if_splits)
  then show "rs = map Inr vs" using no_isl_successes by blast
next
  assume "rs = map Inr vs"
  then show "gather rs = Inr vs"
    by (simp add: gather_eq no_isl_map_Inr successes_map_Inr)
qed

lemma dict_entries_keys:
  "map (\<lambda>(k, x). at (Key k) (wrap (Pair k) (f x))) kvs = map Inr vs \<Longrightarrow> map fst vs = map fst kvs"
proof (induction kvs arbitrary: vs)
  case Nil
  then show ?case by simp
next
  case (Cons kx kvs)
  then show ?case by (cases vs; cases kx) auto
qed

lemma validate_TDict_keys:
  assumes "validate P (TDict t) r = Inr v"
  shows "\<exists>kvs vs. r = RDict kvs \<and> v = VDict vs \<and> map fst vs = map fst kvs"
proof (cases r)
  case (RDict kvs)
  with assms obtain vs where
    "map (\<lambda>(k, x). at (Key k) (wrap (Pair k) (validate P t x))) kvs = map Inr vs" "v = VDict vs"
    by (auto simp: gather_Inr)
  with RDict show ?thesis using dict_entries_keys[of "validate P t" kvs vs] by simp
qed (use assms in auto)

lemma validate_field_present:
  "validate_field P d (k, t, df) = Inr (k, v) \<Longrightarrow> map_of d k = Some x \<Longrightarrow> validate P t x = Inr v"
  by (auto simp: validate_field_def)

lemma validate_field_required:
  "validate_field P d (k, t, Required) = Inr (k, v) \<Longrightarrow> \<exists>x. map_of d k = Some x \<and> validate P t x = Inr v"
  by (auto simp: validate_field_def split: option.splits)


subsection \<open>Lists, event classes, assignment\<close>

lemma list_items_all_ok:
  "list_all (\<lambda>x. \<not> isl (f x)) xs \<Longrightarrow>
   map (\<lambda>(i, x). at (Idx i) (f x)) (enumerate n xs) = map Inr (map (\<lambda>x. projr (f x)) xs)"
proof (induction xs arbitrary: n)
  case Nil
  then show ?case by simp
next
  case (Cons x xs)
  then show ?case by (cases "f x") (simp_all add: at_def)
qed

lemma validate_TList_ok:
  assumes "list_all (\<lambda>x. \<not> isl (validate P t x)) xs"
  shows "validate P (TList t) (RList xs) = Inr (VList (map (\<lambda>x. projr (validate P t x)) xs))"
proof -
  have "gather (map (\<lambda>(i, x). at (Idx i) (validate P t x)) (enumerate 0 xs)) =
      Inr (map (\<lambda>x. projr (validate P t x)) xs)"
    unfolding gather_Inr using assms by (rule list_items_all_ok)
  then show ?thesis by (simp add: wrap_def)
qed


lemma member_cases:
  assumes "t \<in> set EventModel_members"
  obtains name tag pname pfs where
    "t = event_class name tag (TModel pname [] pfs)"
    "map_of variant_tags pname = Some tag"
  using assms
  by (auto simp: EventModel_members_def ClickEvent_def ScrollEvent_def MouseMovementEvent_def
      KeypressEvent_def WindowResizeEvent_def ClickPayload_def ScrollPayload_def
      MouseMovementPayload_def KeypressPayload_def WindowResizePayload_def variant_tags_def)

lemma event_class_tag [simp]: "default_tag (event_class name tag pty) = tag"
  by (simp add: default_tag_def event_class_def BaseEvent_fields_def)

lemma event_class_payload [simp]: "payload_class (event_class name tag pty) = label pty"
  by (simp add: payload_class_def event_class_def BaseEvent_fields_def)

lemma validate_TModel_class:
  "validate P (TModel name cfg fs) r = Inr v \<Longrightarrow> \<exists>d kvs. r = RDict d \<and> v = VModel name kvs"
  by (cases r) auto

lemma event_class_fields:
  assumes "validate P (event_class name tag pty) (RDict d) = Inr ev"
  shows "\<exists>v. validate_field P d (''event_type'', TStr, Default (VStr tag)) = Inr (''event_type'', v) \<and>
             getattr ev ''event_type'' = Inr v"
    and "\<exists>v. validate_field P d (''payload'', pty, Required) = Inr (''payload'', v) \<and>
             getattr ev ''payload'' = Inr v"
  using assms unfolding event_class_def
  by (rule model_field[OF _ event_class_distinct]; simp)+


lemma map_of_assign: "map_of (assign k v kvs) = (map_of kvs)(k \<mapsto> v)"
  by (induction kvs) (auto simp: fun_eq_iff)

lemma class_not_frozen:
  assumes "t \<in> set (EventModel_members @ payload_classes)"
  obtains name cfg fs where "t = TModel name cfg fs" "\<not> is_frozen cfg"
  using assms
  by (auto simp: EventModel_members_def ClickEvent_def ScrollEvent_def MouseMovementEvent_def
      KeypressEvent_def WindowResizeEvent_def payload_classes_def ClickPayload_def
      ScrollPayload_def MouseMovementPayload_def KeypressPayload_def WindowResizePayload_def
      event_class_def BaseEvent_config_def is_frozen_def)


subsection \<open>Unions\<close>

lemma set_successes: "set (successes rs) = {v. Inr v \<in> set rs}"
  by (induction rs rule: successes.induct) auto

lemma successes_Nil: "successes rs = [] \<longleftrightarrow> list_all isl rs"
  by (induction rs rule: successes.induct) auto

lemma Inr_at [simp]: "Inr v = at i r \<longleftrightarrow> r = Inr v"
  by (auto simp: at_def split: sum.splits)

lemma validate_TUnion_Inr:
  assumes "validate P (TUnion ts) r = Inr v"
  shows "\<exists>t \<in> set ts. validate P t r = Inr v"
proof -
  let ?rs = "map (\<lambda>t. at (Key (label t)) (validate P t r)) ts"
  let ?oks = "successes ?rs"
  from assms have ne: "?oks \<noteq> []" and v: "v = ?oks ! (smart_choice P r ?oks mod length ?oks)"
    by (auto simp: Let_def split: if_splits)
  from ne have "smart_choice P r ?oks mod length ?oks < length ?oks" by simp
  then have "v \<in> set ?oks" unfolding v by (rule nth_mem)
  then show ?thesis by (auto simp: set_successes)
qed

lemma validate_TUnion_isl:
  "isl (validate P (TUnion ts) r) \<longleftrightarrow> list_all (\<lambda>t. isl (validate P t r)) ts"
  by (simp add: Let_def successes_Nil list_all_iff)

lemma assign_other: "k' \<noteq> k \<Longrightarrow> map_of (assign k v d) k' = map_of d k'"
  by (simp add: map_of_assign)

lemma assign_same: "map_of (assign k v d) k = Some v"
  by (simp add: map_of_assign)

lemma isl_field_assign:
  assumes "map_of d e = Some (RStr s)" and "fst f = e \<longrightarrow> fst (snd f) = TStr"
  shows "isl (validate_field P (assign e (RStr s') d) f) = isl (validate_field P d f)"
proof (cases f)
  case (fields k t df)
  show ?thesis
  proof (cases "k = e")
    case True
    with assms fields show ?thesis
      by (simp add: validate_field_def assign_same scalar_def)
  next
    case False
    with fields show ?thesis
      by (simp add: validate_field_def assign_other)
  qed
qed

lemma isl_model_assign:
  assumes "map_of d e = Some (RStr s)" and "list_all (\<lambda>f. fst f = e \<longrightarrow> fst (snd f) = TStr) fs"
  shows "isl (validate P (TModel name cfg fs) (RDict (assign e (RStr s') d))) =
         isl (validate P (TModel name cfg fs) (RDict d))"
proof -
  have "list_ex isl (map (validate_field P (assign e (RStr s') d)) fs) =
        list_ex isl (map (validate_field P d) fs)"
    using assms(2) by (induction fs) (simp_all add: isl_field_assign[OF assms(1)])
  then show ?thesis
    unfolding validate_TModel by (simp add: gather_eq)
qed

lemma member_event_type_str:
  assumes "t \<in> set EventModel_members"
  obtains name cfg fs where "t = TModel name cfg fs"
    "list_all (\<lambda>f. fst f = ''event_type'' \<longrightarrow> fst (snd f) = TStr) fs"
  using assms
  by (auto simp: EventModel_members_def ClickEvent_def ScrollEvent_def MouseMovementEvent_def
      KeypressEvent_def WindowResizeEvent_def event_class_def BaseEvent_fields_def)

lemma member_event_type:
  assumes "t \<in> set EventModel_members" and "validate P t (RDict d) = Inr ev"
    and "map_of d ''event_type'' = Some x"
  shows "\<exists>s. x = RStr s \<and> getattr ev ''event_type'' = Inr (VStr s)"
proof -
  from assms(1) obtain name tag pname pfs where
    t: "t = event_class name tag (TModel pname [] pfs)"
    by (rule member_cases)
  from event_class_fields(1)[OF assms(2)[unfolded t]] obtain v where
    v: "validate_field P d (''event_type'', TStr, Default (VStr tag)) = Inr (''event_type'', v)"
      "getattr ev ''event_type'' = Inr v"
    by blast
  from validate_field_str[OF assms(3) v(1)] v(2) show ?thesis by auto
qed


subsection \<open>Validating a dumped instance\<close>

lemma list_items_roundtrip:
  "(\<And>x. x \<in> set vs \<Longrightarrow> f (g x) = Inr x) \<Longrightarrow>
   map (\<lambda>(i, x). at (Idx i) (f x)) (enumerate n (map g vs)) = map Inr vs"
  by (induction vs arbitrary: n) (simp_all add: at_def)

lemma dict_items_roundtrip:
  "(\<And>k x. (k, x) \<in> set kvs \<Longrightarrow> f (g x) = Inr x) \<Longrightarrow>
   map (\<lambda>(k, x). at (Key k) (wrap (Pair k) (f x))) (map (map_prod id g) kvs) = map Inr kvs"
proof (induction kvs)
  case Nil
  then show ?case by simp
next
  case (Cons kx kvs)
  obtain k x where kx: "kx = (k, x)" by (cases kx)
  then have "f (g x) = Inr x" using Cons.prems[of k x] by simp
  then have step: "(\<lambda>(k, x). at (Key k) (wrap (Pair k) (f x))) (map_prod id g (k, x)) = Inr (k, x)"
    by (simp add: at_def wrap_def)
  have ih: "map (\<lambda>(k, x). at (Key k) (wrap (Pair k) (f x))) (map (map_prod id g) kvs) =
      map Inr kvs"
  proof (rule Cons.IH)
    fix k' x' assume "(k', x') \<in> set kvs"
    then have "(k', x') \<in> set (kx # kvs)" by simp
    then show "f (g x') = Inr x'" by (rule Cons.prems)
  qed
  show ?case unfolding kx by (simp only: list.map step ih)
qed

lemma map_of_dumped:
  "map_of (map (map_prod id g) kvs) k = map_option g (map_of kvs k)"
  by (induction kvs) auto

lemma fields_roundtrip:
  assumes "map fst kvs = map fst fs" and "distinct (map fst fs)"
    and "\<And>k t df x. ((k, t, df), (k, x)) \<in> set (zip fs kvs) \<Longrightarrow> validate P t (g x) = Inr x"
  shows "map (validate_field P (map (map_prod id g) kvs)) fs = map Inr kvs"
proof (rule nth_equalityI)
  from assms(1) have len: "length kvs = length fs" by (rule map_eq_imp_length_eq)
  then show "length (map (validate_field P (map (map_prod id g) kvs)) fs) = length (map Inr kvs)"
    by simp
  fix i assume "i < length (map (validate_field P (map (map_prod id g) kvs)) fs)"
  then have i: "i < length fs" by simp
  obtain k t df where f: "fs ! i = (k, t, df)" by (cases "fs ! i") auto
  obtain k' x where kv: "kvs ! i = (k', x)" by (cases "kvs ! i") auto
  from assms(1) i len have "fst (kvs ! i) = fst (fs ! i)"
    by (metis nth_map)
  with f kv have k': "k' = k" by simp
  from assms(1,2) have "distinct (map fst kvs)" by simp
  moreover from i len kv k' have "(k, x) \<in> set kvs" by (metis nth_mem)
  ultimately have "map_of kvs k = Some x" by simp
  then have look: "map_of (map (map_prod id g) kvs) k = Some (g x)"
    by (simp add: map_of_dumped)
  from i len f kv k' have "((k, t, df), (k, x)) \<in> set (zip fs kvs)"
    by (metis in_set_zip fst_conv snd_conv)
  then have "validate P t (g x) = Inr x" by (rule assms(3))
  with look have "validate_field P (map (map_prod id g) kvs) (k, t, df) = Inr (k, x)"
    by (simp add: validate_field_def at_def wrap_def)
  with i len f kv k' show "map (validate_field P (map (map_prod id g) kvs)) fs ! i = map Inr kvs ! i"
    by simp
qed

lemma roundtrip:
  "has_type t v \<Longrightarrow> plain t \<Longrightarrow> validate P t (dump v) = Inr v"
proof (induction t v rule: has_type.induct)
  case (7 t v)
  then obtain vs where v: "v = VList vs" and all: "list_all (has_type t) vs"
    by (cases v) auto
  have "map (\<lambda>(i, x). at (Idx i) (validate P t x)) (enumerate 0 (map dump vs)) = map Inr vs"
    using 7 v all by (intro list_items_roundtrip) (auto simp: list_all_iff)
  then have "gather (map (\<lambda>(i, x). at (Idx i) (validate P t x)) (enumerate 0 (map dump vs))) = Inr vs"
    by (simp only: gather_Inr)
  then show ?case by (simp add: v wrap_def)
next
  case (8 t v)
  then obtain kvs where v: "v = VDict kvs" and all: "list_all (\<lambda>(k, x). has_type t x) kvs"
    by (cases v) auto
  have "map (\<lambda>(k, x). at (Key k) (wrap (Pair k) (validate P t x))) (map (map_prod id dump) kvs) =
      map Inr kvs"
    using 8 v all by (intro dict_items_roundtrip) (auto simp: list_all_iff)
  then have "gather (map (\<lambda>(k, x). at (Key k) (wrap (Pair k) (validate P t x)))
      (map (map_prod id dump) kvs)) = Inr kvs"
    by (simp only: gather_Inr)
  then show ?case by (simp add: v wrap_def)
next
  case (9 name cfg fs v)
  then obtain kvs where v: "v = VModel name kvs" and keys: "map fst kvs = map fst fs"
    and all: "list_all (\<lambda>((k, t, df), (k', x)). has_type t x) (zip fs kvs)"
    by (cases v) auto
  from "9.prems"(2) have dist: "distinct (map fst fs)"
    and pl: "list_all (\<lambda>(k, t, df). plain t) fs" by simp_all
  have "map (validate_field P (map (map_prod id dump) kvs)) fs = map Inr kvs"
  proof (rule fields_roundtrip[OF keys dist])
    fix k t df x assume z: "((k, t, df), (k, x)) \<in> set (zip fs kvs)"
    then have "(k, t, df) \<in> set fs" by (rule set_zip_leftD)
    with pl have "plain t" by (auto simp: list_all_iff)
    moreover from all z have "has_type t x" by (auto simp: list_all_iff)
    ultimately show "validate P t (dump x) = Inr x"
      using "9.IH"[OF v z refl refl refl] by simp
  qed
  then have "gather (map (validate_field P (map (map_prod id dump) kvs)) fs) = Inr kvs"
    by (simp only: gather_Inr)
  then show ?case unfolding v dump.simps validate_TModel by (simp add: wrap_def)
qed (auto simp: scalar_def split: val.splits)

lemma isl_validate_TModel:
  "isl (validate P (TModel name cfg fs) (RDict d)) = list_ex isl (map (validate_field P d) fs)"
  unfolding validate_TModel by (simp add: gather_eq)

lemma missing_required_fails:
  assumes "(k, t, Required) \<in> set fs" and "map_of d k = None"
  shows "isl (validate P (TModel name cfg fs) (RDict d))"
proof -
  from assms(2) have "isl (validate_field P d (k, t, Required))"
    by (simp add: validate_field_def)
  with assms(1) show ?thesis
    unfolding isl_validate_TModel list_ex_iff by auto
qed

lemma bad_field_fails:
  assumes "(k, t, df) \<in> set fs" and "map_of d k = Some x" and "isl (validate P t x)"
  shows "isl (validate P (TModel name cfg fs) (RDict d))"
proof -
  from assms(2,3) have "isl (validate_field P d (k, t, df))"
    by (simp add: validate_field_def)
  with assms(1) show ?thesis
    unfolding isl_validate_TModel list_ex_iff by auto
qed

lemma has_type_field:
  assumes "has_type (TModel name cfg fs) v" and "distinct (map fst fs)" and "(k, t, df) \<in> set fs"
  shows "\<exists>kvs x. v = VModel name kvs \<and> map fst kvs = map fst fs \<and>
           map_of kvs k = Some x \<and> has_type t x"
proof -
  from assms(1) obtain kvs where v: "v = VModel name kvs" and keys: "map fst kvs = map fst fs"
    and all: "list_all (\<lambda>((k, t, df), (k', x)). has_type t x) (zip fs kvs)"
    by (cases v) auto
  from keys have len: "length kvs = length fs" by (rule map_eq_imp_length_eq)
  from assms(3) obtain i where i: "i < length fs" "fs ! i = (k, t, df)"
    by (auto simp: in_set_conv_nth)
  obtain k' x where kv: "kvs ! i = (k', x)" by (cases "kvs ! i") auto
  from keys i len have "fst (kvs ! i) = fst (fs ! i)" by (metis nth_map)
  with i kv have k': "k' = k" by simp
  from keys assms(2) have "distinct (map fst kvs)" by simp
  moreover from i len kv k' have "(k, x) \<in> set kvs" by (metis nth_mem)
  ultimately have look: "map_of kvs k = Some x" by simp
  from i len kv k' have "((k, t, df), (k, x)) \<in> set (zip fs kvs)"
    by (metis in_set_zip fst_conv snd_conv)
  with all have "has_type t x" by (auto simp: list_all_iff)
  with v keys look show ?thesis by blast
qed

lemma field_names_TModel [simp]: "set (field_names (TModel name cfg fs)) = fst ` set fs"
  by simp

lemma other_payload_rejected:
  assumes ev: "has_type (event_class name tag p) ev"
    and p: "p = TModel pname pcfg pfs" and p': "p' = TModel pname' pcfg' pfs'"
    and dis: "distinguishes p' p"
  shows "isl (validate P (event_class name' tag' p') (dump ev))"
proof -
  have mem: "(''payload'', p, Required) \<in>
      set (BaseEvent_fields @ [(''event_type'', TStr, Default (VStr tag)), (''payload'', p, Required)])"
    by simp
  from has_type_field[OF ev[unfolded event_class_def] event_class_distinct mem]
  obtain kvs pv where ev': "ev = VModel name kvs" and look: "map_of kvs ''payload'' = Some pv"
    and pv: "has_type p pv" by blast
  from pv obtain pkvs where pv': "pv = VModel pname pkvs" and keys: "map fst pkvs = map fst pfs"
    unfolding p by (cases pv) auto
  from dis obtain k where k: "k \<in> set (required_keys p')" "k \<notin> fst ` set pfs"
    unfolding distinguishes_def list_ex_iff p by auto
  from k(1) obtain t where req: "(k, t, Required) \<in> set pfs'"
    unfolding required_keys_def p' by auto
  from k(2) keys have "k \<notin> fst ` set pkvs"
    by (metis list.set_map)
  then have "map_of (map (map_prod id dump) pkvs) k = None"
    by (simp add: map_of_dumped map_of_eq_None_iff)
  with req have "isl (validate P p' (RDict (map (map_prod id dump) pkvs)))"
    unfolding p' by (rule missing_required_fails)
  moreover have "map_of (map (map_prod id dump) kvs) ''payload'' =
      Some (RDict (map (map_prod id dump) pkvs))"
    by (simp add: map_of_dumped look pv')
  moreover have "(''payload'', p', Required) \<in>
      set (BaseEvent_fields @ [(''event_type'', TStr, Default (VStr tag')), (''payload'', p', Required)])"
    by simp
  ultimately show ?thesis
    unfolding event_class_def ev' dump.simps
    by (intro bad_field_fails)
qed

lemma members_distinguished:
  "list_all (\<lambda>t. list_all (\<lambda>t'. t' = t \<or> distinguishes (payload_of t') (payload_of t))
     EventModel_members) EventModel_members"
  by code_simp

lemma successes_all_fail:
  "(\<And>t. t \<in> set ts \<Longrightarrow> isl (f t)) \<Longrightarrow> successes (map f ts) = []"
  by (simp add: successes_Nil list_all_iff)

lemma successes_single:
  assumes "distinct ts" and "t \<in> set ts" and "f t = Inr v"
    and "\<And>t'. t' \<in> set ts \<Longrightarrow> t' \<noteq> t \<Longrightarrow> isl (f t')"
  shows "successes (map f ts) = [v]"
  using assms
proof (induction ts)
  case Nil
  then show ?case by simp
next
  case (Cons a ts)
  show ?case
  proof (cases "a = t")
    case True
    with Cons.prems have "\<And>t'. t' \<in> set ts \<Longrightarrow> isl (f t')" by auto
    then have "successes (map f ts) = []" by (rule successes_all_fail)
    with True Cons.prems(3) show ?thesis by simp
  next
    case False
    with Cons.prems have "isl (f a)" by simp
    then obtain e where e: "f a = Inl e" by (cases "f a") auto
    from False Cons.prems have "successes (map f ts) = [v]"
      by (intro Cons.IH) auto
    with e show ?thesis by simp
  qed
qed

lemma members_distinct: "distinct EventModel_members"
  by (simp add: EventModel_members_def ClickEvent_def ScrollEvent_def MouseMovementEvent_def
      KeypressEvent_def WindowResizeEvent_def event_class_def)

lemma members_plain: "t \<in> set EventModel_members \<Longrightarrow> plain t"
  by (auto simp: EventModel_members_def ClickEvent_def ScrollEvent_def MouseMovementEvent_def
      KeypressEvent_def WindowResizeEvent_def event_class_def BaseEvent_fields_def
      ClickPayload_def ScrollPayload_def MouseMovementPayload_def KeypressPayload_def
      WindowResizePayload_def)

lemma payload_of_event_class [simp]: "payload_of (event_class name tag p) = p"
  by (simp add: payload_of_def event_class_def BaseEvent_fields_def)

lemma other_member_rejects:
  assumes "t \<in> set EventModel_members" and "t' \<in> set EventModel_members" and "t' \<noteq> t"
    and "has_type t ev"
  shows "isl (validate P t' (dump ev))"
proof -
  from assms(1) obtain name tag pname pfs where
    t: "t = event_class name tag (TModel pname [] pfs)" by (rule member_cases)
  from assms(2) obtain name' tag' pname' pfs' where
    t': "t' = event_class name' tag' (TModel pname' [] pfs')" by (rule member_cases)
  from members_distinguished assms(1,2,3)
  have "distinguishes (payload_of t') (payload_of t)"
    unfolding list_all_iff by blast
  then have "distinguishes (TModel pname' [] pfs') (TModel pname [] pfs)"
    by (simp add: t t')
  with assms(4)[unfolded t] show ?thesis
    unfolding t' by (intro other_payload_rejected[OF _ refl refl])
qed

lemma member_tag_matches:
  assumes "t \<in> set EventModel_members" and "validate P t (RDict d) = Inr ev"
  shows "tag_matches_payload ev \<longleftrightarrow> getattr ev ''event_type'' = Inr (VStr (default_tag t))"
proof -
  from assms(1) obtain name tag pname pfs where
    t: "t = event_class name tag (TModel pname [] pfs)" and
    tg: "map_of variant_tags pname = Some tag"
    by (rule member_cases)
  from event_class_fields[OF assms(2)[unfolded t]] obtain v w where
    v: "validate_field P d (''event_type'', TStr, Default (VStr tag)) = Inr (''event_type'', v)"
      "getattr ev ''event_type'' = Inr v" and
    w: "validate_field P d (''payload'', TModel pname [] pfs, Required) = Inr (''payload'', w)"
      "getattr ev ''payload'' = Inr w"
    by blast
  from validate_field_required[OF w(1)] obtain kvs where kvs: "w = VModel pname kvs"
    using validate_TModel_class by blast
  have "\<exists>s. v = VStr s"
  proof (cases "map_of d ''event_type''")
    case None
    then show ?thesis using v(1) by (auto simp: validate_field_absent)
  next
    case (Some x)
    then show ?thesis using validate_field_str[OF Some v(1)] by auto
  qed
  then obtain s where s: "v = VStr s" by blast
  show ?thesis
    using v(2) w(2) kvs s tg unfolding t by (auto simp: tag_matches_payload_def)
qed


subsection \<open>Conformance and reported errors\<close>

lemma isl_scalar [simp]: "isl (scalar f x) \<longleftrightarrow> x = None"
  by (cases x) (simp_all add: scalar_def)

lemma isl_gather [simp]: "isl (gather rs) = list_ex isl rs"
  by (simp add: gather_eq)

lemma conforms_iff: "conforms P t r \<longleftrightarrow> \<not> isl (validate P t r)"
proof (induction P t r rule: validate.induct)
  case (7 P t r)
  show ?case
  proof (cases r)
    case (RList xs)
    have "list_ex isl (map (\<lambda>(i, x). at (Idx i) (validate P t x)) (enumerate n xs)) =
        list_ex (\<lambda>x. isl (validate P t x)) xs" for n
      by (induction xs arbitrary: n) simp_all
    moreover have "conforms P t x = (\<not> isl (validate P t x))" if "x \<in> set xs" for x
    proof -
      from that obtain i where "i < length xs" "xs ! i = x" by (auto simp: in_set_conv_nth)
      then have "(i, x) \<in> set (enumerate 0 xs)" by (simp add: in_set_enumerate_eq)
      then show ?thesis by (rule 7[OF RList _ refl])
    qed
    then have "list_all (conforms P t) xs = (\<not> list_ex (\<lambda>x. isl (validate P t x)) xs)"
      by (simp add: list_all_iff list_ex_iff)
    ultimately show ?thesis by (simp add: RList)
  qed simp_all
next
  case (8 P t r)
  show ?case
  proof (cases r)
    case (RDict kvs)
    then show ?thesis
      using 8[OF RDict] by (auto simp: list_all_iff list_ex_iff)
  qed simp_all
next
  case (9 P name cfg fs r)
  show ?case
  proof (cases r)
    case (RDict d)
    have "(case map_of d k of Some x \<Rightarrow> conforms P t x | None \<Rightarrow> df \<noteq> Required) =
        (\<not> isl (validate_field P d (k, t, df)))" if "(k, t, df) \<in> set fs" for k t df
    proof (cases "map_of d k")
      case None
      then show ?thesis by (cases df) (simp_all add: validate_field_def)
    next
      case (Some x)
      with 9[OF RDict that refl refl Some] show ?thesis
        by (simp add: validate_field_def)
    qed
    then show ?thesis
      unfolding RDict isl_validate_TModel by (auto simp: list_all_iff list_ex_iff)
  qed simp_all
next
  case (10 P ts r)
  then show ?case
    by (auto simp: Let_def successes_Nil list_all_iff list_ex_iff)
qed (auto split: raw.splits)

lemma failures_nonempty:
  assumes "list_ex isl rs" and "\<And>e. Inl e \<in> set rs \<Longrightarrow> e \<noteq> []"
  shows "failures rs \<noteq> []"
  using assms by (induction rs rule: failures.induct) auto

lemma errors_nonempty:
  "plain t \<Longrightarrow> validate P t r = Inl es \<Longrightarrow> es \<noteq> []"
proof (induction P t r arbitrary: es rule: validate.induct)
  case (7 P t r)
  show ?case
  proof (cases r)
    case (RList xs)
    let ?rs = "map (\<lambda>(i, x). at (Idx i) (validate P t x)) (enumerate 0 xs)"
    from 7(3) RList have ex: "list_ex isl ?rs" and es: "es = failures ?rs"
      by (auto simp: wrap_def gather_eq split: if_splits)
    have "e \<noteq> []" if "Inl e \<in> set ?rs" for e
    proof -
      from that obtain i x where ix: "(i, x) \<in> set (enumerate 0 xs)"
        and e: "at (Idx i) (validate P t x) = Inl e" by auto
      then obtain e' where e': "validate P t x = Inl e'" "e = map (under (Idx i)) e'"
        by (cases "validate P t x") (auto simp: at_def)
      from 7(1)[OF RList ix refl _ e'(1)] 7(2) have "e' \<noteq> []" by simp
      with e'(2) show ?thesis by simp
    qed
    with ex show ?thesis unfolding es by (rule failures_nonempty)
  qed (use 7 in auto)
next
  case (8 P t r)
  show ?case
  proof (cases r)
    case (RDict kvs)
    let ?rs = "map (\<lambda>(k, x). at (Key k) (wrap (Pair k) (validate P t x))) kvs"
    from 8(3) RDict have ex: "list_ex isl ?rs" and es: "es = failures ?rs"
      by (auto simp: wrap_def gather_eq split: if_splits)
    have "e \<noteq> []" if "Inl e \<in> set ?rs" for e
    proof -
      from that obtain k x where kx: "(k, x) \<in> set kvs"
        and e: "at (Key k) (wrap (Pair k) (validate P t x)) = Inl e" by auto
      then obtain e' where e': "validate P t x = Inl e'" "e = map (under (Key k)) e'"
        by (cases "validate P t x") (auto simp: at_def wrap_def)
      from 8(1)[OF RDict kx refl _ e'(1)] 8(2) have "e' \<noteq> []" by simp
      with e'(2) show ?thesis by simp
    qed
    with ex show ?thesis unfolding es by (rule failures_nonempty)
  qed (use 8 in auto)
next
  case (9 P name cfg fs r)
  show ?case
  proof (cases r)
    case (RDict d)
    let ?rs = "map (validate_field P d) fs"
    from 9(3)[unfolded RDict validate_TModel] have ex: "list_ex isl ?rs" and es: "es = failures ?rs"
      by (auto simp: wrap_def gather_eq split: if_splits)
    have "e \<noteq> []" if "Inl e \<in> set ?rs" for e
    proof -
      from that obtain k t df where f: "(k, t, df) \<in> set fs"
        and e: "validate_field P d (k, t, df) = Inl e" by auto
      from f 9(2) have pl: "plain t" by (auto simp: list_all_iff)
      show ?thesis
      proof (cases "map_of d k")
        case None
        with e show ?thesis by (cases df) (auto simp: validate_field_def)
      next
        case (Some x)
        with e obtain e' where e': "validate P t x = Inl e'" "e = map (under (Key k)) e'"
          by (cases "validate P t x") (auto simp: validate_field_def at_def wrap_def)
        from 9(1)[OF RDict f refl refl Some pl e'(1)] e'(2) show ?thesis by simp
      qed
    qed
    with ex show ?thesis unfolding es by (rule failures_nonempty)
  qed (use 9 in auto)
qed (auto simp: scalar_def split: option.splits)

lemma set_failures: "set (failures rs) = (\<Union>e \<in> {e. Inl e \<in> set rs}. set e)"
  by (induction rs rule: failures.induct) auto

lemma top_VErr [simp]: "top (VErr (i # l) k) = [i]"
  by (simp add: top_def)

lemma top_under [simp]: "top (under i e) = [i]"
  by (cases e) simp

lemma field_errors_top:
  assumes "validate_field P d (k, t, df) = Inl e" and "x \<in> set e"
  shows "top x = [Key k]"
proof (cases "map_of d k")
  case None
  with assms show ?thesis by (cases df) (auto simp: validate_field_def)
next
  case (Some y)
  with assms show ?thesis
    by (cases "validate P t y") (auto simp: validate_field_def at_def wrap_def)
qed

lemma field_errors_nonempty:
  assumes "validate_field P d (k, t, df) = Inl e" and "plain t"
  shows "e \<noteq> []"
proof (cases "map_of d k")
  case None
  with assms show ?thesis by (cases df) (auto simp: validate_field_def)
next
  case (Some y)
  with assms(1) obtain e' where "validate P t y = Inl e'" "e = map (under (Key k)) e'"
    by (cases "validate P t y") (auto simp: validate_field_def at_def wrap_def)
  with errors_nonempty[OF assms(2)] show ?thesis by auto
qed

lemma isl_validate_field: "isl (validate_field P d f) = field_offends P d f"
proof (cases f)
  case (fields k t df)
  show ?thesis
  proof (cases "map_of d k")
    case None
    then show ?thesis by (cases df) (simp_all add: fields validate_field_def field_offends_def)
  next
    case (Some x)
    then show ?thesis
      by (simp add: fields validate_field_def field_offends_def conforms_iff)
  qed
qed

lemma failures_fields_top:
  assumes "list_all (\<lambda>(k, t, df). plain t) fs"
  shows "top ` set (failures (map (validate_field P d) fs)) =
         (\<lambda>k. [Key k]) ` set (offending P fs d)"
proof (rule set_eqI, rule iffI)
  fix l assume "l \<in> top ` set (failures (map (validate_field P d) fs))"
  then obtain x e f where x: "l = top x" "x \<in> set e" and e: "validate_field P d f = Inl e"
    and f: "f \<in> set fs"
    by (auto simp: set_failures)
  obtain k t df where fk: "f = (k, t, df)" by (cases f)
  from e have "isl (validate_field P d f)" by simp
  then have "field_offends P d f" by (simp add: isl_validate_field)
  with f fk have "k \<in> set (offending P fs d)" by (force simp: offending_def)
  moreover from field_errors_top[OF e[unfolded fk] x(2)] x(1) have "l = [Key k]" by simp
  ultimately show "l \<in> (\<lambda>k. [Key k]) ` set (offending P fs d)" by blast
next
  fix l assume "l \<in> (\<lambda>k. [Key k]) ` set (offending P fs d)"
  then obtain k t df where l: "l = [Key k]" and f: "(k, t, df) \<in> set fs"
    and off: "field_offends P d (k, t, df)"
    by (auto simp: offending_def)
  from off obtain e where e: "validate_field P d (k, t, df) = Inl e"
    unfolding isl_validate_field[symmetric] by (cases "validate_field P d (k, t, df)") auto
  from f assms have "plain t" by (auto simp: list_all_iff)
  with e have "e \<noteq> []" by (rule field_errors_nonempty)
  then obtain x where x: "x \<in> set e" by (cases e) auto
  with e have "top x = [Key k]" by (rule field_errors_top)
  moreover from x e f have "x \<in> set (failures (map (validate_field P d) fs))"
    by (force simp: set_failures)
  ultimately show "l \<in> top ` set (failures (map (validate_field P d) fs))"
    unfolding l by (metis imageI)
qed

lemma failures_fields_missing:
  assumes "k \<in> set (missing_fields fs d)"
  shows "VErr [Key k] missing \<in> set (failures (map (validate_field P d) fs))"
proof -
  from assms obtain t where f: "(k, t, Required) \<in> set fs" and m: "map_of d k = None"
    by (auto simp: missing_fields_def)
  from m have "validate_field P d (k, t, Required) = Inl [VErr [Key k] missing]"
    by (simp add: validate_field_def)
  with f show ?thesis by (force simp: set_failures)
qed

lemma payload_class_cases:
  assumes "p \<in> set payload_classes"
  obtains name cfg fs where "p = TModel name cfg fs" "list_all (\<lambda>(k, t, df). plain t) fs"
  using assms
  by (auto simp: payload_classes_def ClickPayload_def ScrollPayload_def MouseMovementPayload_def
      KeypressPayload_def WindowResizePayload_def)

lemma offending_fails:
  assumes "p \<in> set payload_classes" and "offending P (fields_of p) d \<noteq> []"
  shows "validate P p (RDict d) = Inl (failures (map (validate_field P d) (fields_of p)))"
proof -
  from assms(1) obtain name cfg fs where p: "p = TModel name cfg fs"
    by (rule payload_class_cases)
  from assms(2) have "list_ex (field_offends P d) fs"
    by (auto simp: p offending_def list_ex_iff filter_empty_conv)
  then have "list_ex isl (map (validate_field P d) fs)"
    by (simp add: list_ex_iff isl_validate_field)
  then show ?thesis
    unfolding p validate_TModel by (simp add: gather_eq wrap_def)
qed

lemma event_fails_on_bad_payload:
  assumes "e \<in> set EventModel_members" and "isl (validate P (payload_of e) (RDict d))"
    and "map_of d' ''payload'' = Some (RDict d)"
  shows "isl (validate P e (RDict d'))"
proof -
  from assms(1) obtain ename tag pname pfs where
    et: "e = event_class ename tag (TModel pname [] pfs)" by (rule member_cases)
  have "(''payload'', TModel pname [] pfs, Required) \<in> set (BaseEvent_fields @
      [(''event_type'', TStr, Default (VStr tag)), (''payload'', TModel pname [] pfs, Required)])"
    by simp
  moreover from assms(2) have "isl (validate P (TModel pname [] pfs) (RDict d))"
    by (simp add: et)
  ultimately show ?thesis
    unfolding et event_class_def using assms(3)
    by (intro bad_field_fails)
qed

lemma member_payload_class:
  "e \<in> set EventModel_members \<Longrightarrow> payload_of e \<in> set payload_classes"
  by (auto simp: EventModel_members_def ClickEvent_def ScrollEvent_def MouseMovementEvent_def
      KeypressEvent_def WindowResizeEvent_def payload_classes_def)


subsection \<open>The try block of the storage service\<close>

lemma store_event_cause:
  "failure_cause db event s = Some (cause, s1) \<Longrightarrow> store_event db event s = except db cause s1"
  by (auto simp: failure_cause_def store_event_def add_def commit_def
      split: sum.splits option.splits)

lemma store_event_no_cause:
  "failure_cause db event s = None \<Longrightarrow> fst (store_event db event s) = Inr ()"
  by (auto simp: failure_cause_def store_event_def add_def commit_def
      split: sum.splits option.splits)

lemma failure_cause_session:
  assumes "failure_cause db event s = Some (cause, s1)"
  shows "committed s1 = committed s" and "session.more s1 = session.more s"
  using assms
  by (auto simp: failure_cause_def split: sum.splits option.splits)



lemma store_event_outcome:
  "store_event db event s = (Inl err, s') \<longleftrightarrow>
     (\<exists>cause s1. failure_cause db event s = Some (cause, s1) \<and>
        committed s' = committed s \<and> session.more s' = session.more s \<and>
        (case rollback_raises db s1 of
           None \<Rightarrow> err = Exception (''Failed to store event: '' @ str cause) \<and> pending s' = []
         | Some r \<Rightarrow> err = r \<and> pending s' = pending s1))"
proof (cases "failure_cause db event s")
  case None
  then have "fst (store_event db event s) = Inr ()" by (rule store_event_no_cause)
  then have "store_event db event s \<noteq> (Inl err, s')" by auto
  with None show ?thesis by simp
next
  case (Some cs)
  obtain cause s1 where cs: "cs = (cause, s1)" by (cases cs)
  from Some cs have fc: "failure_cause db event s = Some (cause, s1)" by simp
  from fc have st: "store_event db event s = except db cause s1" by (rule store_event_cause)
  from fc have same: "committed s1 = committed s" "session.more s1 = session.more s"
    by (rule failure_cause_session)+
  show ?thesis
  proof (cases "rollback_raises db s1")
    case None
    then have "except db cause s1 =
        (Inl (Exception (''Failed to store event: '' @ str cause)), s1\<lparr>pending := []\<rparr>)"
      by (simp add: except_def rollback_def)
    moreover have "s' = s1\<lparr>pending := []\<rparr> \<longleftrightarrow>
        pending s' = [] \<and> committed s' = committed s1 \<and> session.more s' = session.more s1"
      by (cases s'; cases s1) simp
    ultimately show ?thesis unfolding st fc using None same by auto
  next
    case (Some r)
    then have "except db cause s1 = (Inl r, s1)"
      by (simp add: except_def rollback_def)
    moreover have "s' = s1 \<longleftrightarrow>
        pending s' = pending s1 \<and> committed s' = committed s1 \<and> session.more s' = session.more s1"
      by (cases s'; cases s1) simp
    ultimately show ?thesis unfolding st fc using Some same by auto
  qed
qed

subsection \<open>Resolution of a valid record\<close>

lemma dump_resolves:
  assumes "t \<in> set EventModel_members" and "has_type t ev"
  shows "validate P EventModel (dump ev) = Inr ev"
proof -
  let ?f = "\<lambda>t. at (Key (label t)) (validate P t (dump ev))"
  have "validate P t (dump ev) = Inr ev"
    using assms(2) members_plain[OF assms(1)] by (rule roundtrip)
  then have ok: "?f t = Inr ev" by simp
  have "isl (?f t')" if "t' \<in> set EventModel_members" "t' \<noteq> t" for t'
    using other_member_rejects[OF assms(1) that assms(2)] by simp
  with members_distinct assms(1) ok have "successes (map ?f EventModel_members) = [ev]"
    by (rule successes_single)
  then show ?thesis
    unfolding EventModel_def by (simp add: Let_def)
qed

lemma dump_class_unique:
  assumes "t \<in> set EventModel_members" and "has_type t ev"
    and "u \<in> set EventModel_members" and "\<not> isl (validate P u (dump ev))"
  shows "u = t"
  using other_member_rejects[OF assms(1,3) _ assms(2)] assms(4) by blast

lemma member_default_tag:
  assumes "t \<in> set EventModel_members" and "validate P t (RDict d) = Inr ev"
    and "map_of d ''event_type'' = None"
  shows "getattr ev ''event_type'' = Inr (VStr (default_tag t))"
proof -
  from assms(1) obtain name tag pname pfs where
    t: "t = event_class name tag (TModel pname [] pfs)"
    by (rule member_cases)
  from event_class_fields(1)[OF assms(2)[unfolded t]] obtain v where
    v: "validate_field P d (''event_type'', TStr, Default (VStr tag)) = Inr (''event_type'', v)"
      "getattr ev ''event_type'' = Inr v"
    by blast
  with assms(3) show ?thesis by (auto simp: validate_field_absent t)
qed

lemma member_payload_fields:
  assumes "t \<in> set EventModel_members" and "validate P t (RDict d) = Inr ev"
  shows "\<exists>pd pv. map_of d ''payload'' = Some (RDict pd) \<and> getattr ev ''payload'' = Inr pv \<and>
           validate P (payload_of t) (RDict pd) = Inr pv"
proof -
  from assms(1) obtain name tag pname pfs where
    t: "t = event_class name tag (TModel pname [] pfs)"
    by (rule member_cases)
  from event_class_fields(2)[OF assms(2)[unfolded t]] obtain pv where
    w: "validate_field P d (''payload'', TModel pname [] pfs, Required) = Inr (''payload'', pv)"
      "getattr ev ''payload'' = Inr pv"
    by blast
  from validate_field_required[OF w(1)] obtain x where
    x: "map_of d ''payload'' = Some x" "validate P (TModel pname [] pfs) x = Inr pv" by blast
  from validate_TModel_class[OF x(2)] obtain pd where "x = RDict pd" by blast
  with x w(2) show ?thesis by (simp add: t)
qed

lemma payload_class_cases':
  assumes "p \<in> set payload_classes"
  obtains name cfg fs where "p = TModel name cfg fs" "list_all (\<lambda>(k, t, df). plain t) fs"
    "distinct (map fst fs)"
  using assms
  by (auto simp: payload_classes_def ClickPayload_def ScrollPayload_def MouseMovementPayload_def
      KeypressPayload_def WindowResizePayload_def)

lemma payload_field_kept:
  assumes "p \<in> set payload_classes" and "validate P p (RDict pd) = Inr pv"
    and "(k, ty, df) \<in> set (fields_of p)" and "map_of pd k = Some x"
  shows "\<exists>v. validate P ty x = Inr v \<and> getattr pv k = Inr v \<and>
           (\<forall>v0. has_type ty v0 \<and> dump v0 = x \<longrightarrow> v = v0)"
proof -
  from assms(1) obtain name cfg fs where p: "p = TModel name cfg fs"
    and pl: "list_all (\<lambda>(k, t, df). plain t) fs" and dist: "distinct (map fst fs)"
    by (rule payload_class_cases')
  from assms(3) have mem: "(k, ty, df) \<in> set fs" by (simp add: p)
  from model_field[OF assms(2)[unfolded p] dist mem] obtain v where
    v: "validate_field P pd (k, ty, df) = Inr (k, v)" "getattr pv k = Inr v" by blast
  from validate_field_present[OF v(1) assms(4)] have val: "validate P ty x = Inr v" .
  from mem pl have "plain ty" by (auto simp: list_all_iff)
  then have "v = v0" if "has_type ty v0" "dump v0 = x" for v0
    using roundtrip[OF that(1), of P] val that(2) by simp
  with val v(2) show ?thesis by blast
qed

section \<open>Default tags\<close>



section \<open>Storage failures\<close>




section \<open>The position mapping of a click\<close>

text \<open>
  C9 (as amended). \<^verbatim>\<open>position\<close> is declared \<^verbatim>\<open>Dict[str, int]\<close>, with no constraint on
  its keys: an accepted Click payload has a position mapping with exactly the keys of the
  input mapping, in the input's order, whatever they are.
\<close>

theorem position_keys_as_given:
  assumes "validate P ClickPayload (RDict d) = Inr p"
  shows "\<exists>kvs. map_of d ''position'' = Some (RDict kvs) \<and> position_keys p = map fst kvs"
proof -
  have "\<exists>v. validate_field P d (''position'', TDict TInt, Required) = Inr (''position'', v) \<and>
          getattr p ''position'' = Inr v"
    using assms unfolding ClickPayload_def by (rule model_field) simp_all
  then obtain v where v: "validate_field P d (''position'', TDict TInt, Required) = Inr (''position'', v)"
    and g: "getattr p ''position'' = Inr v" by blast
  from validate_field_required[OF v] obtain x where
    x: "map_of d ''position'' = Some x" "validate P (TDict TInt) x = Inr v" by blast
  from validate_TDict_keys[OF x(2)] x(1) g show ?thesis
    by (auto simp: position_keys_def)
qed

theorem position_keys_as_given_witness:
  "validate exact_params ClickPayload (RDict click_payload_xyz) = Inr click_payload_xyz_value \<and>
   map_of click_payload_xyz ''position'' = Some (RDict [(''x'', RInt 10), (''y'', RInt 20), (''z'', RInt 5)]) \<and>
   position_keys click_payload_xyz_value = [''x'', ''y'', ''z'']"
proof -
  have h: "validate exact_params ClickPayload (RDict click_payload_xyz) = Inr click_payload_xyz_value"
    by code_simp
  from position_keys_as_given [OF h] h show ?thesis
    by (auto simp: click_payload_xyz_def)
qed

text \<open>
  The claim as stated, that the keys are exactly \<^verbatim>\<open>x\<close> and \<^verbatim>\<open>y\<close>, fails: the
  position \<^verbatim>\<open>{"x": 10, "y": 20, "z": 5}\<close> is accepted and the payload keeps the key
  \<^verbatim>\<open>z\<close>.
\<close>

theorem position_extra_key_counterexample:
  "validate exact_params ClickPayload (RDict click_payload_xyz) = Inr click_payload_xyz_value \<and>
   ''z'' \<in> set (position_keys click_payload_xyz_value)"
proof -
  have "validate exact_params ClickPayload (RDict click_payload_xyz) = Inr click_payload_xyz_value"
    by code_simp
  moreover have "position_keys click_payload_xyz_value = [''x'', ''y'', ''z'']"
    by code_simp
  ultimately show ?thesis by simp
qed


section \<open>Batches\<close>

text \<open>
  C7 (as amended). \<^verbatim>\<open>events\<close> is declared \<^verbatim>\<open>List[EventModel]\<close> with no minimum
  length: a batch payload is accepted for every events list whose records all resolve,
  the empty list included, and its events are the resolved records in input order.
\<close>

theorem batch_keeps_resolved_events:
  assumes "map_of d ''events'' = Some (RList xs)"
    and "list_all (\<lambda>x. \<not> isl (validate P EventModel x)) xs"
  shows "validate P BatchEventPayload (RDict d) =
     Inr (VModel ''BatchEventPayload''
       [(''events'', VList (map (\<lambda>x. projr (validate P EventModel x)) xs))])"
  unfolding BatchEventPayload_def validate_TModel
  by (simp add: validate_field_def assms validate_TList_ok at_def wrap_def del: validate.simps)

theorem batch_keeps_resolved_events_witness:
  "validate exact_params BatchEventPayload
     (RDict [(''events'', RList [RDict (click_record ''click''),
                               RDict (untagged_record mouse_payload_record)])]) =
   Inr (VModel ''BatchEventPayload'' [(''events'', VList [click_event ''click'', mouse_event])])"
proof -
  have e1: "validate exact_params EventModel (RDict (click_record ''click'')) =
      Inr (click_event ''click'')"
    by code_simp
  have e2: "validate exact_params EventModel (RDict (untagged_record mouse_payload_record)) =
      Inr mouse_event"
    by code_simp
  show ?thesis
    using batch_keeps_resolved_events [of
        "[(''events'', RList [RDict (click_record ''click''),
                             RDict (untagged_record mouse_payload_record)])]"
        "[RDict (click_record ''click''), RDict (untagged_record mouse_payload_record)]"
        exact_params]
    by (simp add: e1 e2)
qed

text \<open>
  The claim as stated, that an empty events list is rejected, fails: the payload
  \<^verbatim>\<open>{"events": []}\<close> is accepted and gives a batch with no event.
\<close>

theorem empty_batch_counterexample:
  "validate exact_params BatchEventPayload (RDict [(''events'', RList [])]) =
     Inr (VModel ''BatchEventPayload'' [(''events'', VList [])])"
  by code_simp


section \<open>The tag and the payload of an event\<close>

text \<open>
  C1 (as amended). The payload class of an event is fixed by its event class, but
  \<^verbatim>\<open>event_type\<close> is declared \<^verbatim>\<open>str\<close>: an event built by one of the five event classes
  carries the payload class of that class; its \<^verbatim>\<open>event_type\<close> is the default tag of the
  class when the input has none and the input's string, whatever it is, otherwise; so the
  tag matches the payload exactly when the stored string is the default tag of the class.
\<close>

theorem event_type_as_given:
  assumes "t \<in> set EventModel_members" and "validate P t (RDict d) = Inr ev"
  shows "(\<exists>kvs. getattr ev ''payload'' = Inr (VModel (payload_class t) kvs)) \<and>
         (case map_of d ''event_type'' of
            None \<Rightarrow> getattr ev ''event_type'' = Inr (VStr (default_tag t))
          | Some x \<Rightarrow> \<exists>s. x = RStr s \<and> getattr ev ''event_type'' = Inr (VStr s)) \<and>
         (tag_matches_payload ev \<longleftrightarrow> getattr ev ''event_type'' = Inr (VStr (default_tag t)))"
proof -
  from assms(1) obtain name tag pname pfs where
    t: "t = event_class name tag (TModel pname [] pfs)" and
    tg: "map_of variant_tags pname = Some tag"
    by (rule member_cases)
  from event_class_fields[OF assms(2)[unfolded t]] obtain v w where
    v: "validate_field P d (''event_type'', TStr, Default (VStr tag)) = Inr (''event_type'', v)"
      "getattr ev ''event_type'' = Inr v" and
    w: "validate_field P d (''payload'', TModel pname [] pfs, Required) = Inr (''payload'', w)"
      "getattr ev ''payload'' = Inr w"
    by blast
  from validate_field_required[OF w(1)] obtain kvs where kvs: "w = VModel pname kvs"
    using validate_TModel_class by blast
  have tagcase: "case map_of d ''event_type'' of
            None \<Rightarrow> v = VStr tag
          | Some x \<Rightarrow> \<exists>s. x = RStr s \<and> v = VStr s"
  proof (cases "map_of d ''event_type''")
    case None
    then show ?thesis using v(1) by (simp add: validate_field_absent)
  next
    case (Some x)
    then show ?thesis using validate_field_str[OF Some v(1)] by simp
  qed
  then obtain s where s: "v = VStr s" by (auto split: option.splits)
  have "tag_matches_payload ev \<longleftrightarrow> s = tag"
    using v(2) w(2) kvs s tg by (auto simp: tag_matches_payload_def)
  with tagcase v(2) w(2) kvs s show ?thesis
    unfolding t by (auto split: option.splits)
qed

theorem event_type_as_given_witness:
  "ClickEvent \<in> set EventModel_members \<and>
   validate exact_params ClickEvent (RDict (click_record ''scroll'')) = Inr (click_event ''scroll'') \<and>
   getattr (click_event ''scroll'') ''event_type'' = Inr (VStr ''scroll'') \<and>
   default_tag ClickEvent = ''click'' \<and> \<not> tag_matches_payload (click_event ''scroll'')"
proof -
  have h1: "ClickEvent \<in> set EventModel_members" by (simp add: EventModel_members_def)
  have h2: "validate exact_params ClickEvent (RDict (click_record ''scroll'')) =
      Inr (click_event ''scroll'')"
    by code_simp
  have h3: "default_tag ClickEvent = ''click''" by (simp add: ClickEvent_def)
  have h4: "getattr (click_event ''scroll'') ''event_type'' = Inr (VStr ''scroll'')"
    by (simp add: click_event_def)
  from event_type_as_given [OF h1 h2] h1 h2 h3 h4 show ?thesis by simp
qed

text \<open>
  The claim as stated, that the tag always matches the payload, fails: ClickEvent
  built from a click payload and \<^verbatim>\<open>event_type="scroll"\<close> is accepted and keeps the tag
  \<^verbatim>\<open>scroll\<close>.
\<close>

theorem mismatched_tag_counterexample:
  "validate exact_params ClickEvent (RDict (click_record ''scroll'')) = Inr (click_event ''scroll'') \<and>
   \<not> tag_matches_payload (click_event ''scroll'')"
proof -
  have "validate exact_params ClickEvent (RDict (click_record ''scroll'')) =
      Inr (click_event ''scroll'')"
    by code_simp
  moreover have "\<not> tag_matches_payload (click_event ''scroll'')"
    by (simp add: tag_matches_payload_def click_event_def variant_tags_def)
  ultimately show ?thesis by simp
qed


section \<open>Assignment to the fields of an event\<close>

text \<open>
  C8 (as amended). No class of the module is frozen: on an instance of any of the five
  event classes or the five payload classes, assigning a declared field succeeds, the
  field then reads as the assigned value, and every other attribute reads as before.
\<close>

theorem fields_can_be_reassigned:
  assumes "t \<in> set (EventModel_members @ payload_classes)"
    and "validate P t r = Inr obj"
    and "k \<in> set (field_names t)"
  shows "\<exists>obj'. setattr t obj k v = Inr obj' \<and> getattr obj' k = Inr v \<and>
           (\<forall>k'. k' \<noteq> k \<longrightarrow> getattr obj' k' = getattr obj k')"
proof -
  from assms(1) obtain name cfg fs where t: "t = TModel name cfg fs" and nf: "\<not> is_frozen cfg"
    by (rule class_not_frozen)
  from assms(2) obtain d kvs where obj: "obj = VModel name kvs"
    unfolding t using validate_TModel_class by blast
  from assms(3) have "map_of fs k \<noteq> None"
    unfolding t by (simp add: map_of_eq_None_iff)
  then have "setattr t obj k v = Inr (VModel name (assign k v kvs))"
    using nf by (simp add: t obj)
  then show ?thesis by (simp add: obj map_of_assign)
qed

theorem fields_can_be_reassigned_witness:
  "setattr ClickEvent (click_event ''click'') ''event_type'' (VStr ''scroll'') =
     Inr (click_event ''scroll'') \<and>
   getattr (click_event ''scroll'') ''event_type'' = Inr (VStr ''scroll'')"
proof -
  have h1: "ClickEvent \<in> set (EventModel_members @ payload_classes)"
    by (simp add: EventModel_members_def)
  have h2: "validate exact_params ClickEvent (RDict (click_record ''click'')) =
      Inr (click_event ''click'')"
    by code_simp
  have h3: "''event_type'' \<in> set (field_names ClickEvent)"
    by (simp add: ClickEvent_def event_class_def)
  have e: "setattr ClickEvent (click_event ''click'') ''event_type'' (VStr ''scroll'') =
      Inr (click_event ''scroll'')"
    by code_simp
  from fields_can_be_reassigned [OF h1 h2 h3, of "VStr ''scroll''"] e show ?thesis by simp
qed

text \<open>
  The claim as stated, that no operation changes an event once built, fails: assigning
  another \<^verbatim>\<open>url\<close> to a constructed click event succeeds and the event then reads the
  new value.
\<close>

theorem event_mutated_counterexample:
  "setattr ClickEvent (click_event ''click'') ''url'' (VStr ''/elsewhere'') =
     Inr (VModel ''ClickEvent''
       [(''session_id'', VUuid 1), (''website_id'', VUuid 2), (''url'', VStr ''/elsewhere''),
        (''timestamp'', VDatetime (Datetime 5)), (''event_type'', VStr ''click''),
        (''payload'', VModel ''ClickPayload''
           [(''element_id'', VStr ''buy''),
            (''element_classes'', VList [VStr ''btn'']),
            (''position'', VDict [(''x'', VInt 10), (''y'', VInt 20)])])]) \<and>
   getattr (click_event ''click'') ''url'' = Inr (VStr ''/shop'')"
  by code_simp


section \<open>An explicit event type\<close>

text \<open>
  C5 (as amended). The union has no discriminator and \<^verbatim>\<open>event_type\<close> is a plain
  \<^verbatim>\<open>str\<close>, so an \<^verbatim>\<open>event_type\<close> outside the five tags is not rejected. For a record
  with an explicit \<^verbatim>\<open>event_type\<close> string \<open>s\<close>: resolution fails exactly when every event
  class rejects the record; whether it fails does not change when \<open>s\<close> is replaced by any
  other string; and an event that is produced carries \<open>s\<close> unchanged.
\<close>

theorem explicit_event_type_not_checked:
  assumes "map_of d ''event_type'' = Some (RStr s)"
  shows "isl (validate P EventModel (RDict d)) =
           list_all (\<lambda>t. isl (validate P t (RDict d))) EventModel_members \<and>
         isl (validate P EventModel (RDict (assign ''event_type'' (RStr s') d))) =
           isl (validate P EventModel (RDict d)) \<and>
         (case validate P EventModel (RDict d) of
            Inl es \<Rightarrow> True
          | Inr ev \<Rightarrow> getattr ev ''event_type'' = Inr (VStr s))"
proof -
  have a: "isl (validate P EventModel (RDict d)) =
      list_all (\<lambda>t. isl (validate P t (RDict d))) EventModel_members"
    unfolding EventModel_def by (rule validate_TUnion_isl)
  have "isl (validate P t (RDict (assign ''event_type'' (RStr s') d))) =
        isl (validate P t (RDict d))" if "t \<in> set EventModel_members" for t
    using that assms by (elim member_event_type_str) (simp add: isl_model_assign del: validate.simps)
  then have b: "isl (validate P EventModel (RDict (assign ''event_type'' (RStr s') d))) =
      isl (validate P EventModel (RDict d))"
    unfolding EventModel_def validate_TUnion_isl list_all_iff by blast
  have c: "getattr ev ''event_type'' = Inr (VStr s)"
    if "validate P EventModel (RDict d) = Inr ev" for ev
  proof -
    from that obtain t where t: "t \<in> set EventModel_members" "validate P t (RDict d) = Inr ev"
      unfolding EventModel_def using validate_TUnion_Inr by blast
    from member_event_type [OF t assms] show ?thesis by simp
  qed
  from a b c show ?thesis by (auto split: sum.splits)
qed

theorem explicit_event_type_not_checked_witness:
  "map_of (click_record ''bogus'') ''event_type'' = Some (RStr ''bogus'') \<and>
   \<not> isl (validate exact_params EventModel (RDict (click_record ''bogus''))) \<and>
   \<not> isl (validate exact_params EventModel
       (RDict (assign ''event_type'' (RStr ''click'') (click_record ''bogus'')))) \<and>
   validate exact_params EventModel (RDict (click_record ''bogus'')) = Inr (click_event ''bogus'') \<and>
   getattr (click_event ''bogus'') ''event_type'' = Inr (VStr ''bogus'')"
proof -
  have h: "map_of (click_record ''bogus'') ''event_type'' = Some (RStr ''bogus'')"
    by (simp add: click_record_def envelope_record_def)
  have e: "validate exact_params EventModel (RDict (click_record ''bogus'')) =
      Inr (click_event ''bogus'')"
    by code_simp
  from explicit_event_type_not_checked [OF h, of exact_params "''click''"] h e
  show ?thesis by simp
qed

text \<open>
  The claim as stated, that an \<^verbatim>\<open>event_type\<close> outside the five tags makes resolution
  fail, fails: a click record tagged \<^verbatim>\<open>bogus\<close> resolves to a ClickEvent that carries
  \<^verbatim>\<open>bogus\<close>.
\<close>

theorem unknown_tag_counterexample:
  "validate exact_params EventModel (RDict (click_record ''bogus'')) = Inr (click_event ''bogus'') \<and>
   ''bogus'' \<notin> set known_tags"
proof -
  have "validate exact_params EventModel (RDict (click_record ''bogus'')) =
      Inr (click_event ''bogus'')"
    by code_simp
  moreover have "''bogus'' \<notin> set known_tags"
    by (simp add: known_tags_def EventModel_members_def ClickEvent_def ScrollEvent_def
        MouseMovementEvent_def KeypressEvent_def WindowResizeEvent_def)
  ultimately show ?thesis by (rule conjI)
qed


section \<open>Fidelity of union resolution\<close>

text \<open>
  C3 (as amended). A record is a valid input when one of the five event classes validates
  it. For every valid record, union resolution produces an event, the result of an event
  class \<open>u\<close> that validates the record (the schema used). Every payload field of that
  class that the input payload carries is stored as the validation of the input value:
  the input value itself when it is already of the declared type, its conversion to the
  declared type otherwise. The \<^verbatim>\<open>event_type\<close> of the event is the default tag of \<open>u\<close> when
  the record has none and the record's own string otherwise, so it matches the schema
  used exactly when it is the default tag of \<open>u\<close>. When the record is the dump of a
  well-typed event of one of the five classes, resolution returns that very event and
  \<open>u\<close> is its class.
\<close>

theorem resolution_keeps_input:
  assumes "t \<in> set EventModel_members" and "\<not> isl (validate P t (RDict d))"
  shows "\<exists>u ev pd pv.
      u \<in> set EventModel_members \<and>
      validate P EventModel (RDict d) = Inr ev \<and> validate P u (RDict d) = Inr ev \<and>
      (case map_of d ''event_type'' of
         None \<Rightarrow> getattr ev ''event_type'' = Inr (VStr (default_tag u))
       | Some x \<Rightarrow> \<exists>s. x = RStr s \<and> getattr ev ''event_type'' = Inr (VStr s)) \<and>
      (tag_matches_payload ev \<longleftrightarrow> getattr ev ''event_type'' = Inr (VStr (default_tag u))) \<and>
      map_of d ''payload'' = Some (RDict pd) \<and> getattr ev ''payload'' = Inr pv \<and>
      list_all (\<lambda>(k, ty, df).
         (case map_of pd k of
            None \<Rightarrow> True
          | Some x \<Rightarrow>
              (\<exists>v. validate P ty x = Inr v \<and> getattr pv k = Inr v \<and>
                   (\<forall>v0. has_type ty v0 \<and> dump v0 = x \<longrightarrow> v = v0))))
        (fields_of (payload_of u)) \<and>
      (\<forall>w ev1. w \<in> set EventModel_members \<and> has_type w ev1 \<and> dump ev1 = RDict d \<longrightarrow>
         u = w \<and> ev = ev1)"
proof -
  from assms have "\<not> isl (validate P EventModel (RDict d))"
    unfolding EventModel_def validate_TUnion_isl by (auto simp: list_all_iff)
  then obtain ev where res: "validate P EventModel (RDict d) = Inr ev"
    by (cases "validate P EventModel (RDict d)") auto
  then obtain u where u: "u \<in> set EventModel_members" and uv: "validate P u (RDict d) = Inr ev"
    unfolding EventModel_def using validate_TUnion_Inr by blast
  have tag: "case map_of d ''event_type'' of
         None \<Rightarrow> getattr ev ''event_type'' = Inr (VStr (default_tag u))
       | Some x \<Rightarrow> \<exists>s. x = RStr s \<and> getattr ev ''event_type'' = Inr (VStr s)"
  proof (cases "map_of d ''event_type''")
    case None
    with member_default_tag[OF u uv] show ?thesis by simp
  next
    case (Some x)
    with member_event_type[OF u uv] show ?thesis by simp
  qed
  have tm: "tag_matches_payload ev \<longleftrightarrow> getattr ev ''event_type'' = Inr (VStr (default_tag u))"
    using u uv by (rule member_tag_matches)
  from member_payload_fields[OF u uv] obtain pd pv where
    pd: "map_of d ''payload'' = Some (RDict pd)" and pv: "getattr ev ''payload'' = Inr pv"
    and pval: "validate P (payload_of u) (RDict pd) = Inr pv" by blast
  have pc: "payload_of u \<in> set payload_classes" using u by (rule member_payload_class)
  have fields: "list_all (\<lambda>(k, ty, df).
         (case map_of pd k of
            None \<Rightarrow> True
          | Some x \<Rightarrow>
              (\<exists>v. validate P ty x = Inr v \<and> getattr pv k = Inr v \<and>
                   (\<forall>v0. has_type ty v0 \<and> dump v0 = x \<longrightarrow> v = v0))))
        (fields_of (payload_of u))"
    unfolding list_all_iff
  proof
    fix f assume f: "f \<in> set (fields_of (payload_of u))"
    obtain k ty df where fk: "f = (k, ty, df)" by (cases f)
    show "case f of (k, ty, df) \<Rightarrow>
         (case map_of pd k of
            None \<Rightarrow> True
          | Some x \<Rightarrow>
              (\<exists>v. validate P ty x = Inr v \<and> getattr pv k = Inr v \<and>
                   (\<forall>v0. has_type ty v0 \<and> dump v0 = x \<longrightarrow> v = v0)))"
    proof (cases "map_of pd k")
      case None
      then show ?thesis by (simp add: fk)
    next
      case (Some x)
      from payload_field_kept[OF pc pval f[unfolded fk] Some] Some show ?thesis
        by (simp add: fk)
    qed
  qed
  have rt: "u = w \<and> ev = ev1"
    if "w \<in> set EventModel_members \<and> has_type w ev1 \<and> dump ev1 = RDict d" for w ev1
  proof -
    from that have w: "w \<in> set EventModel_members" and h: "has_type w ev1"
      and dd: "dump ev1 = RDict d" by simp_all
    from dump_resolves[OF w h, of P] res have "ev = ev1" by (simp add: dd)
    moreover from uv have "\<not> isl (validate P u (dump ev1))" by (simp add: dd)
    then have "u = w" by (rule dump_class_unique[OF w h u])
    ultimately show ?thesis by simp
  qed
  show ?thesis
  proof (intro exI conjI allI impI)
    show "u \<in> set EventModel_members" by (rule u)
    show "validate P EventModel (RDict d) = Inr ev" by (rule res)
    show "validate P u (RDict d) = Inr ev" by (rule uv)
    show "case map_of d ''event_type'' of
         None \<Rightarrow> getattr ev ''event_type'' = Inr (VStr (default_tag u))
       | Some x \<Rightarrow> \<exists>s. x = RStr s \<and> getattr ev ''event_type'' = Inr (VStr s)" by (rule tag)
    show "tag_matches_payload ev \<longleftrightarrow> getattr ev ''event_type'' = Inr (VStr (default_tag u))"
      by (rule tm)
    show "map_of d ''payload'' = Some (RDict pd)" by (rule pd)
    show "getattr ev ''payload'' = Inr pv" by (rule pv)
    show "list_all (\<lambda>(k, ty, df).
         (case map_of pd k of
            None \<Rightarrow> True
          | Some x \<Rightarrow>
              (\<exists>v. validate P ty x = Inr v \<and> getattr pv k = Inr v \<and>
                   (\<forall>v0. has_type ty v0 \<and> dump v0 = x \<longrightarrow> v = v0))))
        (fields_of (payload_of u))" by (rule fields)
    show "u = w" if "w \<in> set EventModel_members \<and> has_type w ev1 \<and> dump ev1 = RDict d"
      for w ev1 using rt[OF that] by simp
    show "ev = ev1" if "w \<in> set EventModel_members \<and> has_type w ev1 \<and> dump ev1 = RDict d"
      for w ev1 using rt[OF that] by simp
  qed
qed


theorem resolution_keeps_input_witness:
  "ClickEvent \<in> set EventModel_members \<and>
   \<not> isl (validate exact_params ClickEvent (RDict (untagged_record min_click_payload))) \<and>
   validate exact_params EventModel (RDict (untagged_record min_click_payload)) =
     Inr min_click_event \<and>
   getattr min_click_event ''event_type'' = Inr (VStr ''click'') \<and>
   tag_matches_payload min_click_event"
proof -
  have h1: "ClickEvent \<in> set EventModel_members" by (simp add: EventModel_members_def)
  have h2: "\<not> isl (validate exact_params ClickEvent (RDict (untagged_record min_click_payload)))"
    by code_simp
  have h3: "map_of (untagged_record min_click_payload) ''event_type'' = None"
    by (simp add: untagged_record_def envelope_record_def)
  have e: "validate exact_params EventModel (RDict (untagged_record min_click_payload)) =
      Inr min_click_event"
    by code_simp
  have g: "getattr min_click_event ''event_type'' = Inr (VStr ''click'')"
    by (simp add: min_click_event_def)
  from resolution_keeps_input [OF h1 h2] obtain u ev where
    a: "validate exact_params EventModel (RDict (untagged_record min_click_payload)) = Inr ev"
    and b: "case map_of (untagged_record min_click_payload) ''event_type'' of
         None \<Rightarrow> getattr ev ''event_type'' = Inr (VStr (default_tag u))
       | Some x \<Rightarrow> \<exists>s. x = RStr s \<and> getattr ev ''event_type'' = Inr (VStr s)"
    and c: "tag_matches_payload ev \<longleftrightarrow> getattr ev ''event_type'' = Inr (VStr (default_tag u))"
    by (elim exE conjE)
  from a e have ev: "ev = min_click_event" by simp
  from b h3 have "getattr ev ''event_type'' = Inr (VStr (default_tag u))" by simp
  with c have "tag_matches_payload ev" by simp
  with h1 h2 e g ev show ?thesis by simp
qed

text \<open>
  The claim as stated, that the \<^verbatim>\<open>event_type\<close> of the resolved event matches the
  schema used, fails: a valid click record tagged \<^verbatim>\<open>scroll\<close> resolves to a ClickEvent
  whose tag is not the tag of its payload.
\<close>

theorem resolution_tag_counterexample:
  "validate exact_params EventModel (RDict (click_record ''scroll'')) = Inr (click_event ''scroll'') \<and>
   \<not> tag_matches_payload (click_event ''scroll'')"
proof -
  have "validate exact_params EventModel (RDict (click_record ''scroll'')) =
      Inr (click_event ''scroll'')"
    by code_simp
  moreover have "\<not> tag_matches_payload (click_event ''scroll'')"
    by (simp add: tag_matches_payload_def click_event_def variant_tags_def)
  ultimately show ?thesis by (rule conjI)
qed

section \<open>Validation errors of a payload\<close>

text \<open>
  C4. \<open>conforms\<close> is the reading of "can be coerced to its declared type, every list or
  mapping element too", and \<open>offending\<close> lists the declared fields of a class that are
  required and absent, or present with a value that does not conform. For each of the
  five payload classes and every input dict with an offending field, validation fails
  with a validation error (the schema error); the locations of its errors start with
  exactly the offending fields, each of them and not only the first; every absent
  required field has a \<open>missing\<close> error at its name; and no event is produced: the
  event class of that payload rejects every record carrying the dict, and when the dict
  offends all five payload schemas the union rejects the record.
\<close>

theorem payload_errors_enumerated:
  assumes "p \<in> set payload_classes" and "offending P (fields_of p) d \<noteq> []"
  shows "\<exists>es. validate P p (RDict d) = Inl es \<and>
           top ` set es = (\<lambda>k. [Key k]) ` set (offending P (fields_of p) d) \<and>
           list_all (\<lambda>k. VErr [Key k] missing \<in> set es) (missing_fields (fields_of p) d) \<and>
           (e \<in> set EventModel_members \<and> payload_of e = p \<and>
            map_of d' ''payload'' = Some (RDict d) \<longrightarrow> isl (validate P e (RDict d'))) \<and>
           (list_all (\<lambda>q. offending P (fields_of q) d \<noteq> []) payload_classes \<and>
            map_of d' ''payload'' = Some (RDict d) \<longrightarrow> isl (validate P EventModel (RDict d')))"
proof -
  from assms(1) obtain name cfg fs where p: "p = TModel name cfg fs"
    and pl: "list_all (\<lambda>(k, t, df). plain t) fs"
    by (rule payload_class_cases)
  let ?es = "failures (map (validate_field P d) fs)"
  have v: "validate P p (RDict d) = Inl ?es"
    using offending_fails[OF assms] by (simp add: p)
  have a: "top ` set ?es = (\<lambda>k. [Key k]) ` set (offending P (fields_of p) d)"
    using failures_fields_top[OF pl] by (simp add: p)
  have b: "list_all (\<lambda>k. VErr [Key k] missing \<in> set ?es) (missing_fields (fields_of p) d)"
    unfolding list_all_iff using failures_fields_missing by (simp add: p)
  have c: "isl (validate P e (RDict d'))"
    if "e \<in> set EventModel_members" and "payload_of e = p"
      and "map_of d' ''payload'' = Some (RDict d)"
  proof (rule event_fails_on_bad_payload)
    show "e \<in> set EventModel_members" by fact
    show "isl (validate P (payload_of e) (RDict d))" unfolding that(2) v by simp
    show "map_of d' ''payload'' = Some (RDict d)" by fact
  qed
  have c': "isl (validate P EventModel (RDict d'))"
    if all: "list_all (\<lambda>q. offending P (fields_of q) d \<noteq> []) payload_classes"
      and d': "map_of d' ''payload'' = Some (RDict d)"
  proof -
    have "isl (validate P m (RDict d'))" if m: "m \<in> set EventModel_members" for m
    proof -
      from m have q: "payload_of m \<in> set payload_classes" by (rule member_payload_class)
      with all have "offending P (fields_of (payload_of m)) d \<noteq> []"
        by (simp add: list_all_iff)
      with q have "isl (validate P (payload_of m) (RDict d))"
        by (simp add: offending_fails)
      with m show ?thesis using d' by (rule event_fails_on_bad_payload)
    qed
    then show ?thesis
      unfolding EventModel_def validate_TUnion_isl by (simp add: list_all_iff)
  qed
  show ?thesis
  proof (intro exI conjI impI)
    show "validate P p (RDict d) = Inl ?es" by (rule v)
    show "top ` set ?es = (\<lambda>k. [Key k]) ` set (offending P (fields_of p) d)" by (rule a)
    show "list_all (\<lambda>k. VErr [Key k] missing \<in> set ?es) (missing_fields (fields_of p) d)"
      by (rule b)
    show "isl (validate P e (RDict d'))"
      if "e \<in> set EventModel_members \<and> payload_of e = p \<and>
          map_of d' ''payload'' = Some (RDict d)"
      using that by (intro c) simp_all
    show "isl (validate P EventModel (RDict d'))"
      if "list_all (\<lambda>q. offending P (fields_of q) d \<noteq> []) payload_classes \<and>
          map_of d' ''payload'' = Some (RDict d)"
      using that by (intro c') simp_all
  qed
qed

theorem payload_errors_enumerated_witness:
  "ClickPayload \<in> set payload_classes \<and>
   offending exact_params (fields_of ClickPayload) bad_click_payload =
     [''element_id'', ''element_classes'', ''position''] \<and>
   missing_fields (fields_of ClickPayload) bad_click_payload = [''element_id''] \<and>
   validate exact_params ClickPayload (RDict bad_click_payload) =
     Inl [VErr [Key ''element_id''] missing,
          VErr [Key ''element_classes'', Idx 1] bad_value,
          VErr [Key ''position'', Key ''x''] bad_value] \<and>
   isl (validate exact_params ClickEvent (RDict (untagged_record bad_click_payload))) \<and>
   isl (validate exact_params EventModel (RDict (untagged_record bad_click_payload)))"
proof -
  have h1: "ClickPayload \<in> set payload_classes" by (simp add: payload_classes_def)
  have h2: "offending exact_params (fields_of ClickPayload) bad_click_payload =
      [''element_id'', ''element_classes'', ''position'']"
    by code_simp
  have h3: "missing_fields (fields_of ClickPayload) bad_click_payload = [''element_id'']"
    by code_simp
  have h4: "validate exact_params ClickPayload (RDict bad_click_payload) =
     Inl [VErr [Key ''element_id''] missing,
          VErr [Key ''element_classes'', Idx 1] bad_value,
          VErr [Key ''position'', Key ''x''] bad_value]"
    by code_simp
  have h5: "ClickEvent \<in> set EventModel_members" by (simp add: EventModel_members_def)
  have h6: "payload_of ClickEvent = ClickPayload" by (simp add: ClickEvent_def)
  have h7: "map_of (untagged_record bad_click_payload) ''payload'' = Some (RDict bad_click_payload)"
    by (simp add: untagged_record_def envelope_record_def)
  have h8: "list_all (\<lambda>q. offending exact_params (fields_of q) bad_click_payload \<noteq> [])
      payload_classes"
    by code_simp
  have ne: "offending exact_params (fields_of ClickPayload) bad_click_payload \<noteq> []"
    by (simp add: h2)
  from payload_errors_enumerated [OF h1 ne, of ClickEvent "untagged_record bad_click_payload"]
    h1 h2 h3 h4 h5 h6 h7 h8
  show ?thesis by simp
qed


section \<open>Records that several event classes validate\<close>

text \<open>
  The union is declared in the order Click, Scroll, MouseMovement, Keypress,
  WindowResize. When the choice among the validating members is the first one, the union
  returns the first member, in that order, that validates. Unknown fields are ignored, so
  one record can be validated by more than one event class, and then the event produced
  is the one the choice rule of the library selects.
\<close>

lemma first_choice_resolution:
  assumes "smart_choice P r (successes (map (\<lambda>t. at (Key (label t)) (validate P t r)) ts)) = 0"
  shows "validate P (TUnion ts) r =
     (case successes (map (\<lambda>t. at (Key (label t)) (validate P t r)) ts) of
        [] \<Rightarrow> Inl (failures (map (\<lambda>t. at (Key (label t)) (validate P t r)) ts))
      | v # vs \<Rightarrow> Inr v)"
  using assms by (simp add: Let_def split: list.splits)

lemma two_classes_validate:
  "\<not> isl (validate exact_params ClickEvent (RDict (untagged_record click_and_keypress_payload))) \<and>
   \<not> isl (validate exact_params KeypressEvent (RDict (untagged_record click_and_keypress_payload)))"
  by code_simp

lemma resolution_follows_choice:
  "getattr (projr (validate exact_params EventModel
      (RDict (untagged_record click_and_keypress_payload)))) ''event_type'' = Inr (VStr ''click'') \<and>
   getattr (projr (validate second_choice_params EventModel
      (RDict (untagged_record click_and_keypress_payload)))) ''event_type'' = Inr (VStr ''keypress'')"
  by code_simp

end
